theory Spec2Isabelle
  imports Complex_Main "HOL-Library.AList" "HOL-Library.Sublist"
begin

section \<open>Proxy pool (src/core/proxy\_manager.py)\<close>

text \<open>
  \<^verbatim>\<open>ProxyStatus\<close> and \<^verbatim>\<open>ProxyPool\<close> are the two dataclasses of the module. The pool's
  \<^verbatim>\<open>proxies\<close> dictionary keeps insertion order, which \<^verbatim>\<open>healthy_proxies\<close> exposes, so
  it is an association list here. The field \<^verbatim>\<open>url\<close> of \<^verbatim>\<open>ProxyStatus\<close> is called
  \<open>ps_url\<close> because scrape results have a field of the same name.
\<close>

record ProxyStatus =
  ps_url :: string
  is_healthy :: bool
  last_check :: real
  response_time_ms :: real
  fail_count :: int
  success_count :: int
  last_error :: "string option"

record ProxyPool =
  proxies :: "(string \<times> ProxyStatus) list"
  current_index :: int
  health_check_url :: string
  health_check_interval :: real
  max_fail_count :: int
  timeout :: real



definition healthy_proxies :: "ProxyPool \<Rightarrow> string list" where
  "healthy_proxies p = map fst (filter (\<lambda>(u, s). is_healthy s) (proxies p))"



definition mark_success :: "ProxyPool \<Rightarrow> string \<Rightarrow> ProxyPool" where
  "mark_success p proxy_url =
     (if proxy_url \<in> fst ` set (proxies p)
      then p\<lparr>proxies :=
               AList.map_entry proxy_url
                 (\<lambda>s. s\<lparr>success_count := success_count s + 1, fail_count := 0,
                         is_healthy := True, last_error := None\<rparr>)
                 (proxies p)\<rparr>
      else p)"

definition mark_failure :: "ProxyPool \<Rightarrow> string \<Rightarrow> string option \<Rightarrow> ProxyPool" where
  "mark_failure p proxy_url err =
     (if proxy_url \<in> fst ` set (proxies p)
      then p\<lparr>proxies :=
               AList.map_entry proxy_url
                 (\<lambda>s. let s1 = s\<lparr>fail_count := fail_count s + 1, last_error := err\<rparr>
                       in if fail_count s1 \<ge> max_fail_count p
                          then s1\<lparr>is_healthy := False\<rparr> else s1)
                 (proxies p)\<rparr>
      else p)"


definition mixed_pool :: ProxyPool where
  "mixed_pool =
     \<lparr>proxies =
        [(''p1'', \<lparr>ps_url = ''p1'', is_healthy = False, last_check = 0, response_time_ms = 0,
                   fail_count = 7, success_count = 0, last_error = None\<rparr>),
         (''p2'', \<lparr>ps_url = ''p2'', is_healthy = False, last_check = 0, response_time_ms = 0,
                   fail_count = 3, success_count = 2, last_error = None\<rparr>)],
      current_index = 0, health_check_url = ''h'', health_check_interval = 300,
      max_fail_count = 3, timeout = 10\<rparr>"

section \<open>Engines: shared data (src/engines/base.py, src/models/project.py)\<close>

record SelectorField =
  name :: string
  selector :: string
  selector_type :: string
  attribute :: "string option"
  fallback_selectors :: "string list"
  transform :: "string option"

text \<open>\<^verbatim>\<open>ScrapeResult.data\<close> is a Python dictionary from field names to extracted values
  (\<^verbatim>\<open>None\<close> for a field that matched nothing); it is an association list in insertion
  order. The field \<^verbatim>\<open>elapsed_ms\<close> is a wall-clock reading, taken from the world below.\<close>

record ScrapeResult =
  url :: string
  success :: bool
  data :: "(string \<times> string option) list"
  error :: "string option"
  status_code :: "int option"
  elapsed_ms :: real
  html :: "string option"

record RobotsWarning =
  rw_url :: string
  disallowed_paths :: "string list"
  message :: string

record RateLimitConfig =
  min_delay :: real
  max_delay :: real
  max_concurrent :: int
  adaptive :: bool

record ProxyConfig =
  enabled :: bool
  pc_proxies :: "string list"
  rotate :: bool
  health_check :: bool

text \<open>Exceptions that leave a coroutine. \<^verbatim>\<open>str(e)\<close> is what \<^verbatim>\<open>scrape_batch\<close> stores.\<close>

datatype py_exn = OverflowError | Exception string


text \<open>Observable effects of a call, in the order they happen: \<^verbatim>\<open>asyncio.sleep(d)\<close>, the
  request for a page (\<^verbatim>\<open>client.get(url)\<close>, \<^verbatim>\<open>page.goto(url)\<close>) and the request for a
  robots.txt file.\<close>

datatype effect = Sleep real | Get string | GetRobots string

text \<open>Decimal \<^verbatim>\<open>str\<close> of an integer, for the f-strings that format a status code.\<close>

fun str_nat :: "nat \<Rightarrow> string" where
  "str_nat n = (if n < 10 then [''0123456789'' ! n]
                else str_nat (n div 10) @ [''0123456789'' ! (n mod 10)])"

declare str_nat.simps [simp del]

definition str_int :: "int \<Rightarrow> string" where
  "str_int i = (if i < 0 then CHR ''-'' # str_nat (nat (- i)) else str_nat (nat i))"

text \<open>The extraction loop that both engines run on a fetched page:
  \<^verbatim>\<open>data = {}; for field in fields: data[field.name] = self._extract_field(page, field)\<close>.
  The page query itself (\<^verbatim>\<open>_extract_field\<close>: selectors, fallbacks, sanitising) is the
  function \<open>extract\<close> that the fetched page comes with.\<close>

definition extract_fields ::
  "(SelectorField \<Rightarrow> string option) \<Rightarrow> SelectorField list \<Rightarrow> (string \<times> string option) list" where
  "extract_fields extract fs = fold (\<lambda>f d. AList.update (name f) (extract f) d) fs []"

subsection \<open>Rate limiting (\_wait\_rate\_limit, the same code in both engines)\<close>

text \<open>
  Delays are Python floats, taken as reals. \<^verbatim>\<open>2 ** self._consecutive_errors\<close> is an
  exact integer, and multiplying the float \<^verbatim>\<open>max_delay\<close> by it converts it to a float
  first, which raises \<^verbatim>\<open>OverflowError\<close> from \<open>2 ^ 1024\<close> on. \<^verbatim>\<open>random.uniform(a, b)\<close>
  is \<^verbatim>\<open>a + (b - a) * random()\<close> with the draw \<open>rnd\<close> in \<open>[0, 1)\<close>.
\<close>

definition rate_limit_delay :: "RateLimitConfig \<Rightarrow> nat \<Rightarrow> real \<Rightarrow> py_exn + real" where
  "rate_limit_delay rl consecutive_errors rnd =
     (if adaptive rl \<and> consecutive_errors > 0
      then (if consecutive_errors \<ge> 1024 then Inl OverflowError
            else Inr (min (max_delay rl * 2 ^ consecutive_errors) 60))
      else Inr (min_delay rl + (max_delay rl - min_delay rl) * rnd))"

definition wait_rate_limit :: "RateLimitConfig \<Rightarrow> nat \<Rightarrow> real \<Rightarrow> py_exn + effect list" where
  "wait_rate_limit rl consecutive_errors rnd =
     (case rate_limit_delay rl consecutive_errors rnd of
        Inl exn \<Rightarrow> Inl exn
      | Inr delay \<Rightarrow> Inr (if delay > 0 then [Sleep delay] else []))"

subsection \<open>The world of a call\<close>

text \<open>
  What one request does is given from outside. \<open>fetch_page w url attempt\<close> is the outcome
  of the \<open>attempt\<close>-th pass through the \<^verbatim>\<open>try\<close> block of \<^verbatim>\<open>StaticEngine.scrape\<close> for
  \<open>url\<close> (through whichever proxy that pass uses), \<open>goto_page\<close> the same for
  \<^verbatim>\<open>PlaywrightEngine.scrape\<close>. A fetched page carries its text and the page query
  \<^verbatim>\<open>_extract_field\<close> as a function of the field.
\<close>

datatype page_outcome =
    HTTPStatusError int string
  | RequestError string
  | UnexpectedError string
  | UnexpectedErrorAfter string string
  | Page string int "SelectorField \<Rightarrow> string option"

datatype js_outcome =
    JsError string
  | JsErrorAfter string string
  | JsPage string "int option" "SelectorField \<Rightarrow> string option"

text \<open>\<^verbatim>\<open>HTTPStatusError code reason\<close>: \<^verbatim>\<open>raise_for_status\<close> raised;
  \<^verbatim>\<open>RequestError m\<close>, \<^verbatim>\<open>UnexpectedError m\<close>, \<^verbatim>\<open>JsError m\<close>: an exception with
  \<^verbatim>\<open>str(e) = m\<close> before the page text was read; \<^verbatim>\<open>UnexpectedErrorAfter h m\<close>,
  \<^verbatim>\<open>JsErrorAfter h m\<close>: the page text \<open>h\<close> was assigned to \<^verbatim>\<open>html\<close> and parsing or
  extraction raised afterwards.\<close>

record world =
  urlparse_scheme :: "string \<Rightarrow> string"
  urlparse_netloc :: "string \<Rightarrow> string"
  urlparse_path :: "string \<Rightarrow> string"
  urljoin :: "string \<Rightarrow> string \<Rightarrow> string"
  fetch_robots :: "string \<Rightarrow> (string \<Rightarrow> bool) option"
  fetch_page :: "string \<Rightarrow> nat \<Rightarrow> page_outcome"
  goto_page :: "string \<Rightarrow> nat \<Rightarrow> js_outcome"
  random01 :: real
  compute_hash :: "(string \<times> string option) list \<Rightarrow> string"
  elapsed :: real

text \<open>\<open>fetch_robots w robots_url\<close> is \<^verbatim>\<open>None\<close> when fetching robots.txt raised, else the
  parsed file as its predicate \<^verbatim>\<open>can_fetch("*", url)\<close>.\<close>

definition is_page :: "page_outcome \<Rightarrow> bool" where
  "is_page out = (case out of Page h sc ex \<Rightarrow> True | _ \<Rightarrow> False)"

definition is_js_page :: "js_outcome \<Rightarrow> bool" where
  "is_js_page out = (case out of JsPage h sc ex \<Rightarrow> True | _ \<Rightarrow> False)"

text \<open>The value of \<^verbatim>\<open>last_error\<close> and the page text a failed pass leaves behind.\<close>

fun error_text :: "page_outcome \<Rightarrow> string" where
  "error_text (HTTPStatusError code reason) = ''HTTP '' @ str_int code @ '': '' @ reason"
| "error_text (RequestError m) = ''Request failed: '' @ m"
| "error_text (UnexpectedError m) = ''Unexpected error: '' @ m"
| "error_text (UnexpectedErrorAfter h m) = ''Unexpected error: '' @ m"
| "error_text (Page h sc ex) = []"

fun content_of :: "page_outcome \<Rightarrow> string option" where
  "content_of (UnexpectedErrorAfter h m) = Some h"
| "content_of (Page h sc ex) = Some h"
| "content_of out = None"

fun js_error_text :: "js_outcome \<Rightarrow> string" where
  "js_error_text (JsError m) = m"
| "js_error_text (JsErrorAfter h m) = m"
| "js_error_text (JsPage h sc ex) = []"

fun js_content_of :: "js_outcome \<Rightarrow> string option" where
  "js_content_of (JsErrorAfter h m) = Some h"
| "js_content_of (JsPage h sc ex) = Some h"
| "js_content_of out = None"

subsection \<open>Proxy rotation (\_get\_proxy, the same code in both engines)\<close>

text \<open>Takes and returns \<^verbatim>\<open>self._proxy_index\<close> and \<^verbatim>\<open>self._failed_proxies\<close>.\<close>

definition get_proxy :: "ProxyConfig \<Rightarrow> int \<Rightarrow> string set \<Rightarrow> string option \<times> int \<times> string set" where
  "get_proxy pc idx failed =
     (if \<not> enabled pc \<or> pc_proxies pc = [] then (None, idx, failed)
      else let available = filter (\<lambda>p. p \<notin> failed) (pc_proxies pc);
               failed1 = (if available = [] then {} else failed);
               available1 = (if available = [] then pc_proxies pc else available)
           in if rotate pc
              then let i = (idx + 1) mod int (length available1)
                   in (Some (available1 ! nat i), i, failed1)
              else (Some (available1 ! 0), idx, failed1))"

subsection \<open>StaticEngine (src/engines/static\_engine.py)\<close>

text \<open>The constructor arguments that the modelled methods read, and the mutable state.
  \<^verbatim>\<open>timeout\<close> and \<^verbatim>\<open>headers\<close> only parameterise the requests, whose outcomes come from
  the world.\<close>

record StaticEngine =
  rate_limit :: RateLimitConfig
  proxy :: ProxyConfig
  retry_count :: int
  save_html_on_error :: bool
  respect_robots :: bool
  detect_duplicates :: bool
  robots_cache :: "string \<rightharpoonup> (string \<Rightarrow> bool)"
  seen_hashes :: "string set"
  consecutive_errors :: nat
  proxy_index :: int
  failed_proxies :: "string set"

definition base_url_of :: "world \<Rightarrow> string \<Rightarrow> string" where
  "base_url_of w u = urlparse_scheme w u @ ''://'' @ urlparse_netloc w u"

definition check_robots :: "world \<Rightarrow> StaticEngine \<Rightarrow> string \<Rightarrow> RobotsWarning option \<times> StaticEngine \<times> effect list" where
  "check_robots w e u =
     (if \<not> respect_robots e then (None, e, [])
      else
        let base_url = base_url_of w u;
            robots_url = urljoin w base_url ''/robots.txt'';
            verdict = (\<lambda>rp e1 tr.
               if \<not> rp u
               then (Some \<lparr>rw_url = u, disallowed_paths = [urlparse_path w u],
                           message = ''URL path '' @ [CHR 0x27] @ urlparse_path w u @ [CHR 0x27]
                                     @ '' is disallowed by robots.txt''\<rparr>, e1, tr)
               else (None, e1, tr))
        in case robots_cache e base_url of
             Some rp \<Rightarrow> verdict rp e []
           | None \<Rightarrow>
               (case fetch_robots w robots_url of
                  None \<Rightarrow> (None, e, [GetRobots robots_url])
                | Some rp \<Rightarrow>
                    verdict rp (e\<lparr>robots_cache := (robots_cache e)(base_url \<mapsto> rp)\<rparr>)
                      [GetRobots robots_url]))"

text \<open>One pass through the body of the retry loop: either a \<^verbatim>\<open>return\<close>, or an exception
  handler that leaves \<^verbatim>\<open>last_error\<close> and possibly a newly assigned \<^verbatim>\<open>html\<close>.\<close>

datatype attempt_result = Returned ScrapeResult | Failed string "string option"

definition note_failure :: "string option \<Rightarrow> StaticEngine \<Rightarrow> StaticEngine" where
  "note_failure px e =
     e\<lparr>consecutive_errors := Suc (consecutive_errors e),
       failed_proxies := (case px of
                            Some p \<Rightarrow> if p \<noteq> [] then insert p (failed_proxies e)
                                      else failed_proxies e
                          | None \<Rightarrow> failed_proxies e)\<rparr>"

definition static_attempt ::
  "world \<Rightarrow> StaticEngine \<Rightarrow> string \<Rightarrow> SelectorField list \<Rightarrow> nat \<Rightarrow> attempt_result \<times> StaticEngine" where
  "static_attempt w e u fs attempt =
     (case get_proxy (proxy e) (proxy_index e) (failed_proxies e) of
        (px, idx, failed) \<Rightarrow>
          let e1 = e\<lparr>proxy_index := idx, failed_proxies := failed\<rparr>
          in case fetch_page w u attempt of
               Page h sc extract \<Rightarrow>
                 let d = extract_fields extract fs;
                     ok = \<lparr>url = u, success = True, data = d, error = None,
                           status_code = Some sc, elapsed_ms = elapsed w, html = Some h\<rparr>
                 in if detect_duplicates e1
                    then if compute_hash w d \<in> seen_hashes e1
                         then (Returned (ok\<lparr>error := Some ''Duplicate detected (skipped)''\<rparr>), e1)
                         else (Returned ok,
                               e1\<lparr>seen_hashes := insert (compute_hash w d) (seen_hashes e1),
                                  consecutive_errors := 0\<rparr>)
                    else (Returned ok, e1\<lparr>consecutive_errors := 0\<rparr>)
             | HTTPStatusError code reason \<Rightarrow>
                 (Failed (error_text (HTTPStatusError code reason)) None, note_failure px e1)
             | RequestError m \<Rightarrow>
                 (Failed (error_text (RequestError m)) None, note_failure px e1)
             | UnexpectedError m \<Rightarrow>
                 (Failed (error_text (UnexpectedError m)) None,
                  e1\<lparr>consecutive_errors := Suc (consecutive_errors e1)\<rparr>)
             | UnexpectedErrorAfter h m \<Rightarrow>
                 (Failed (error_text (UnexpectedErrorAfter h m)) (Some h),
                  e1\<lparr>consecutive_errors := Suc (consecutive_errors e1)\<rparr>))"

text \<open>
  \<^verbatim>\<open>for attempt in range(self.retry_count + 1)\<close>: \<open>k\<close> passes are left and \<open>attempt\<close> is
  the loop variable. After a failed pass, \<^verbatim>\<open>if attempt < self.retry_count\<close> sleeps
  \<^verbatim>\<open>2 ** attempt\<close> seconds. When the range is used up the method returns the failed
  result, with \<^verbatim>\<open>html=html  # Always include for crawling\<close>.
\<close>

fun static_retry_loop ::
  "world \<Rightarrow> string \<Rightarrow> SelectorField list \<Rightarrow> nat \<Rightarrow> nat \<Rightarrow> StaticEngine \<Rightarrow> string option \<Rightarrow>
   string option \<Rightarrow> effect list \<Rightarrow> ScrapeResult \<times> StaticEngine \<times> effect list" where
  "static_retry_loop w u fs 0 attempt e last_err page_html tr =
     (\<lparr>url = u, success = False, data = [], error = last_err, status_code = None,
       elapsed_ms = elapsed w, html = page_html\<rparr>, e, tr)"
| "static_retry_loop w u fs (Suc k) attempt e last_err page_html tr =
     (case static_attempt w e u fs attempt of
        (Returned r, e1) \<Rightarrow> (r, e1, tr @ [Get u])
      | (Failed msg new_html, e1) \<Rightarrow>
          static_retry_loop w u fs k (Suc attempt) e1 (Some msg)
            (case new_html of Some h \<Rightarrow> Some h | None \<Rightarrow> page_html)
            (tr @ [Get u] @ (if int attempt < retry_count e1 then [Sleep (2 ^ attempt)] else [])))"

definition scrape ::
  "world \<Rightarrow> StaticEngine \<Rightarrow> string \<Rightarrow> SelectorField list \<Rightarrow>
   (py_exn + ScrapeResult) \<times> StaticEngine \<times> effect list" where
  "scrape w e u fs =
     (case check_robots w e u of
        (Some robots_warning, e1, tr1) \<Rightarrow>
          (Inr \<lparr>url = u, success = False, data = [],
                error = Some (''Blocked by robots.txt: '' @ message robots_warning),
                status_code = None, elapsed_ms = elapsed w, html = None\<rparr>, e1, tr1)
      | (None, e1, tr1) \<Rightarrow>
          (case wait_rate_limit (rate_limit e1) (consecutive_errors e1) (random01 w) of
             Inl exn \<Rightarrow> (Inl exn, e1, tr1)
           | Inr tr2 \<Rightarrow>
               (case static_retry_loop w u fs (nat (retry_count e1 + 1)) 0 e1 None None (tr1 @ tr2) of
                  (r, e2, tr) \<Rightarrow> (Inr r, e2, tr))))"

subsection \<open>PlaywrightEngine (src/engines/js\_engine.py)\<close>

text \<open>Fields carry the prefix \<open>js_\<close>. \<open>js_started\<close> stands for
  \<^verbatim>\<open>self._playwright is not None\<close>; the robots cache of this engine holds booleans.\<close>

record PlaywrightEngine =
  js_rate_limit :: RateLimitConfig
  js_proxy :: ProxyConfig
  js_retry_count :: int
  js_save_html_on_error :: bool
  js_respect_robots :: bool
  js_detect_duplicates :: bool
  js_started :: bool
  js_robots_cache :: "string \<rightharpoonup> bool"
  js_seen_hashes :: "string set"
  js_consecutive_errors :: nat
  js_proxy_index :: int
  js_failed_proxies :: "string set"

text \<open>\<^verbatim>\<open>_init_browser\<close>: the first call launches the browser and asks \<^verbatim>\<open>_get_proxy\<close> for
  its proxy.\<close>

definition init_browser :: "PlaywrightEngine \<Rightarrow> PlaywrightEngine" where
  "init_browser e =
     (if js_started e then e
      else case get_proxy (js_proxy e) (js_proxy_index e) (js_failed_proxies e) of
             (px, idx, failed) \<Rightarrow>
               e\<lparr>js_started := True, js_proxy_index := idx, js_failed_proxies := failed\<rparr>)"


definition js_attempt ::
  "world \<Rightarrow> PlaywrightEngine \<Rightarrow> string \<Rightarrow> SelectorField list \<Rightarrow> nat \<Rightarrow> attempt_result \<times> PlaywrightEngine" where
  "js_attempt w e u fs attempt =
     (case goto_page w u attempt of
        JsPage h sc extract \<Rightarrow>
          let d = extract_fields extract fs;
              ok = \<lparr>url = u, success = True, data = d, error = None,
                    status_code = sc, elapsed_ms = elapsed w, html = None\<rparr>
          in if js_detect_duplicates e
             then if compute_hash w d \<in> js_seen_hashes e
                  then (Returned (ok\<lparr>error := Some ''Duplicate detected (skipped)''\<rparr>), e)
                  else (Returned ok,
                        e\<lparr>js_seen_hashes := insert (compute_hash w d) (js_seen_hashes e),
                          js_consecutive_errors := 0\<rparr>)
             else (Returned ok, e\<lparr>js_consecutive_errors := 0\<rparr>)
      | JsError m \<Rightarrow>
          (Failed (js_error_text (JsError m)) None,
           e\<lparr>js_consecutive_errors := Suc (js_consecutive_errors e)\<rparr>)
      | JsErrorAfter h m \<Rightarrow>
          (Failed (js_error_text (JsErrorAfter h m)) (Some h),
           e\<lparr>js_consecutive_errors := Suc (js_consecutive_errors e)\<rparr>))"

text \<open>The same loop as in the static engine; the failed result at its end has
  \<^verbatim>\<open>html=html if self.save_html_on_error else None\<close>.\<close>

fun js_retry_loop ::
  "world \<Rightarrow> string \<Rightarrow> SelectorField list \<Rightarrow> nat \<Rightarrow> nat \<Rightarrow> PlaywrightEngine \<Rightarrow> string option \<Rightarrow>
   string option \<Rightarrow> effect list \<Rightarrow> ScrapeResult \<times> PlaywrightEngine \<times> effect list" where
  "js_retry_loop w u fs 0 attempt e last_err page_html tr =
     (\<lparr>url = u, success = False, data = [], error = last_err, status_code = None,
       elapsed_ms = elapsed w,
       html = (if js_save_html_on_error e then page_html else None)\<rparr>, e, tr)"
| "js_retry_loop w u fs (Suc k) attempt e last_err page_html tr =
     (case js_attempt w e u fs attempt of
        (Returned r, e1) \<Rightarrow> (r, e1, tr @ [Get u])
      | (Failed msg new_html, e1) \<Rightarrow>
          js_retry_loop w u fs k (Suc attempt) e1 (Some msg)
            (case new_html of Some h \<Rightarrow> Some h | None \<Rightarrow> page_html)
            (tr @ [Get u] @ (if int attempt < js_retry_count e1 then [Sleep (2 ^ attempt)] else [])))"

definition js_scrape ::
  "world \<Rightarrow> PlaywrightEngine \<Rightarrow> string \<Rightarrow> SelectorField list \<Rightarrow>
   (py_exn + ScrapeResult) \<times> PlaywrightEngine \<times> effect list" where
  "js_scrape w e u fs =
     (let e1 = init_browser e
      in case wait_rate_limit (js_rate_limit e1) (js_consecutive_errors e1) (random01 w) of
           Inl exn \<Rightarrow> (Inl exn, e1, [])
         | Inr tr1 \<Rightarrow>
             (case js_retry_loop w u fs (nat (js_retry_count e1 + 1)) 0 e1 None None tr1 of
                (r, e2, tr) \<Rightarrow> (Inr r, e2, tr)))"

subsection \<open>scrape\_batch (the same code in both engines)\<close>



subsection \<open>Traces and contents the results are stated with\<close>

text \<open>\<open>attempts_from u a m\<close>: \<open>m\<close> requests for \<open>u\<close>, numbered from \<open>a\<close>, each followed
  by a sleep of \<open>2 ^ i\<close> seconds, and then one more request. \<open>exhausted_from u rc a k\<close>:
  \<open>k\<close> requests, the \<open>i\<close>-th followed by its sleep when \<open>i < rc\<close>.
  \<open>last_content init cs\<close>: the last page text in \<open>cs\<close>, else \<open>init\<close>.\<close>

definition attempts_from :: "string \<Rightarrow> nat \<Rightarrow> nat \<Rightarrow> effect list" where
  "attempts_from u a m = concat (map (\<lambda>i. [Get u, Sleep (2 ^ i)]) [a..<a + m]) @ [Get u]"

definition exhausted_from :: "string \<Rightarrow> int \<Rightarrow> nat \<Rightarrow> nat \<Rightarrow> effect list" where
  "exhausted_from u rc a k =
     concat (map (\<lambda>i. Get u # (if int i < rc then [Sleep (2 ^ i)] else [])) [a..<a + k])"

definition last_content :: "string option \<Rightarrow> string option list \<Rightarrow> string option" where
  "last_content init cs = fold (\<lambda>c acc. case c of Some h \<Rightarrow> Some h | None \<Rightarrow> acc) cs init"

subsection \<open>Robots verdict, constructors and example inputs\<close>


text \<open>The state in which the two \<^verbatim>\<open>__init__\<close> methods leave a new engine, and the
  defaults of \<^verbatim>\<open>RateLimitConfig\<close> and \<^verbatim>\<open>ProxyConfig\<close>.\<close>

definition new_StaticEngine ::
  "RateLimitConfig \<Rightarrow> ProxyConfig \<Rightarrow> int \<Rightarrow> bool \<Rightarrow> bool \<Rightarrow> bool \<Rightarrow> StaticEngine" where
  "new_StaticEngine rl pc rc save_html respect detect =
     \<lparr>rate_limit = rl, proxy = pc, retry_count = rc, save_html_on_error = save_html,
      respect_robots = respect, detect_duplicates = detect, robots_cache = Map.empty,
      seen_hashes = {}, consecutive_errors = 0, proxy_index = 0, failed_proxies = {}\<rparr>"

definition new_PlaywrightEngine ::
  "RateLimitConfig \<Rightarrow> ProxyConfig \<Rightarrow> int \<Rightarrow> bool \<Rightarrow> bool \<Rightarrow> bool \<Rightarrow> PlaywrightEngine" where
  "new_PlaywrightEngine rl pc rc save_html respect detect =
     \<lparr>js_rate_limit = rl, js_proxy = pc, js_retry_count = rc, js_save_html_on_error = save_html,
      js_respect_robots = respect, js_detect_duplicates = detect, js_started = False,
      js_robots_cache = Map.empty, js_seen_hashes = {}, js_consecutive_errors = 0,
      js_proxy_index = 0, js_failed_proxies = {}\<rparr>"

definition default_rate_limit :: RateLimitConfig where
  "default_rate_limit = \<lparr>min_delay = 1, max_delay = 3, max_concurrent = 3, adaptive = True\<rparr>"

definition default_proxy :: ProxyConfig where
  "default_proxy = \<lparr>enabled = False, pc_proxies = [], rotate = True, health_check = True\<rparr>"

definition ex_field :: "string \<Rightarrow> string \<Rightarrow> SelectorField" where
  "ex_field n sel =
     \<lparr>name = n, selector = sel, selector_type = ''css'', attribute = None,
      fallback_selectors = [], transform = None\<rparr>"

text \<open>A world with one origin \<^verbatim>\<open>http://h\<close>: \<open>robots\<close> is its robots.txt, \<open>outs\<close> and
  \<open>js_outs\<close> are the outcomes of the successive requests.\<close>

definition ex_world ::
  "(string \<Rightarrow> bool) option \<Rightarrow> (nat \<Rightarrow> page_outcome) \<Rightarrow> (nat \<Rightarrow> js_outcome) \<Rightarrow> world" where
  "ex_world robots outs js_outs =
     \<lparr>urlparse_scheme = (\<lambda>u. ''http''), urlparse_netloc = (\<lambda>u. ''h''),
      urlparse_path = (\<lambda>u. ''/a''), urljoin = (\<lambda>b p. b @ p),
      fetch_robots = (\<lambda>u. robots), fetch_page = (\<lambda>u. outs), goto_page = (\<lambda>u. js_outs),
      random01 = 1 / 2, compute_hash = (\<lambda>d. concat (map fst d)), elapsed = 0\<rparr>"

text \<open>Two failures and then a page; a page text followed by an error, every time.\<close>

definition third_time :: "nat \<Rightarrow> page_outcome" where
  "third_time i = (if i < 2 then RequestError ''down'' else Page ''<p>'' 200 (\<lambda>f. Some (selector f)))"

definition js_third_time :: "nat \<Rightarrow> js_outcome" where
  "js_third_time i = (if i < 2 then JsError ''down'' else JsPage ''<p>'' (Some 200) (\<lambda>f. Some (selector f)))"

definition always_broken :: "nat \<Rightarrow> page_outcome" where
  "always_broken i = UnexpectedErrorAfter ''<p>'' ''boom''"

definition js_always_broken :: "nat \<Rightarrow> js_outcome" where
  "js_always_broken i = JsErrorAfter ''<p>'' ''boom''"

text \<open>The engine after \<open>n\<close> successive calls of \<^verbatim>\<open>scrape\<close> for the same URL and fields
  that return.\<close>

primrec scrape_times :: "nat \<Rightarrow> world \<Rightarrow> StaticEngine \<Rightarrow> string \<Rightarrow> SelectorField list \<Rightarrow> StaticEngine" where
  "scrape_times 0 w e u fs = e"
| "scrape_times (Suc n) w e u fs = fst (snd (scrape w (scrape_times n w e u fs) u fs))"


section \<open>Orchestrator (src/core/scraper.py)\<close>

text \<open>Of the project configuration, \<^verbatim>\<open>run\<close> reads \<^verbatim>\<open>target.urls\<close> (here \<open>target_urls\<close>),
  \<^verbatim>\<open>fields\<close> (here \<open>project_fields\<close>) and \<^verbatim>\<open>link_follow\<close>, whose field \<^verbatim>\<open>enabled\<close> is
  \<open>lf_enabled\<close> here.\<close>

record LinkFollowConfig =
  lf_enabled :: bool
  link_selectors :: "string list"
  max_depth :: int
  same_domain_only :: bool

record ScraperProject =
  target_urls :: "string list"
  project_fields :: "SelectorField list"
  link_follow :: LinkFollowConfig

text \<open>The three flags \<^verbatim>\<open>_running\<close>, \<^verbatim>\<open>_paused\<close>, \<^verbatim>\<open>_stop_requested\<close> and the three
  methods the user interface calls on them.\<close>

record RunControl =
  running :: bool
  paused :: bool
  stop_requested :: bool

definition resume :: "RunControl \<Rightarrow> RunControl" where
  "resume c = c\<lparr>paused := False\<rparr>"

definition skip_current :: "RunControl \<Rightarrow> RunControl" where
  "skip_current c = c\<lparr>paused := False\<rparr>"

definition stop :: "RunControl \<Rightarrow> RunControl" where
  "stop c = c\<lparr>stop_requested := True, paused := False\<rparr>"

datatype control = Resume | SkipCurrent | Stop

fun apply_control :: "control \<Rightarrow> RunControl \<Rightarrow> RunControl" where
  "apply_control Resume c = resume c"
| "apply_control SkipCurrent c = skip_current c"
| "apply_control Stop c = stop c"

definition apply_calls :: "control list \<Rightarrow> RunControl \<Rightarrow> RunControl" where
  "apply_calls cs c = fold apply_control cs c"

text \<open>The signals \<^verbatim>\<open>run\<close> emits (the \<^verbatim>\<open>log\<close> signal, which carries text only, is left
  out) and the events of a run: an emitted signal, a call of the engine, one
  \<^verbatim>\<open>asyncio.sleep(0.1)\<close> of the pause loop.\<close>

datatype signal =
    SigError string
  | SigRobotsWarning RobotsWarning
  | SigPaused "string option" ScrapeResult
  | SigProgress int int ScrapeResult
  | SigCompleted "ScrapeResult list"

datatype orch_event = Emit signal | CallCheckRobots string | CallScrape string | PollSleep

text \<open>
  The engine is whichever of the two \<^verbatim>\<open>_get_engine\<close> selects: the orchestrator only calls
  its \<^verbatim>\<open>check_robots\<close> and \<^verbatim>\<open>scrape\<close>, given here as functions on an engine state
  \<open>'e\<close>. \<^verbatim>\<open>_extract_links\<close> (an HTML query) is a function of the page text, the base URL,
  the selector and the same-domain flag.
\<close>

record 'e orch_env =
  env_check_robots :: "'e \<Rightarrow> string \<Rightarrow> RobotsWarning option \<times> 'e"
  env_scrape :: "'e \<Rightarrow> string \<Rightarrow> SelectorField list \<Rightarrow> (py_exn + ScrapeResult) \<times> 'e"
  env_extract_links :: "string \<Rightarrow> string \<Rightarrow> string \<Rightarrow> bool \<Rightarrow> string list"

text \<open>
  The local variables of \<^verbatim>\<open>run\<close>, the flags and the engine. The user interface runs on
  the same event loop and can call \<^verbatim>\<open>resume\<close>, \<^verbatim>\<open>skip_current\<close> and \<^verbatim>\<open>stop\<close> only
  where \<^verbatim>\<open>run\<close> gives up control: while it awaits the engine, inside the handlers of the
  \<^verbatim>\<open>paused\<close> signal, and during each sleep of the pause loop. \<open>script\<close> lists, for these
  points in the order they are reached, the calls made there; when it is used up no
  further call is ever made.
\<close>

record 'e loop_state =
  url_queue :: "string list"
  seen_urls :: "string set"
  pages_scraped :: int
  results :: "ScrapeResult list"
  ctl :: RunControl
  eng :: 'e
  script :: "control list list"
  events :: "orch_event list"

definition take_calls :: "control list list \<Rightarrow> control list \<times> control list list" where
  "take_calls s = (case s of [] \<Rightarrow> ([], []) | b # bs \<Rightarrow> (b, bs))"

text \<open>\<^verbatim>\<open>"HTTP 4" in str(result.error)\<close>.\<close>

fun str_contains :: "string \<Rightarrow> string \<Rightarrow> bool" where
  "str_contains needle [] = (needle = [])"
| "str_contains needle (c # cs) = (prefix needle (c # cs) \<or> str_contains needle cs)"

definition should_pause_on_error :: "ScrapeResult \<Rightarrow> bool" where
  "should_pause_on_error r =
     (case error r of None \<Rightarrow> False | Some m \<Rightarrow> m \<noteq> [] \<and> str_contains ''HTTP 4'' m)"

text \<open>
  \<^verbatim>\<open>while self._paused and not self._stop_requested: await asyncio.sleep(0.1)\<close>. Each
  sleep lets the next calls of the script in. The result is the flags, the rest of the
  script and the number of sleeps, or \<^verbatim>\<open>None\<close> when the loop is still waiting after the
  last call that will ever be made.
\<close>

fun wait_while_paused ::
  "RunControl \<Rightarrow> control list list \<Rightarrow> (RunControl \<times> control list list \<times> nat) option" where
  "wait_while_paused c [] =
     (if paused c \<and> \<not> stop_requested c then None else Some (c, [], 0))"
| "wait_while_paused c (b # bs) =
     (if paused c \<and> \<not> stop_requested c
      then map_option (\<lambda>(c1, s1, n). (c1, s1, Suc n)) (wait_while_paused (apply_calls b c) bs)
      else Some (c, b # bs, 0))"

text \<open>\<^verbatim>\<open>list(dict.fromkeys(all_new_links))\<close> keeps the first occurrence of each link.\<close>

definition dedup :: "string list \<Rightarrow> string list" where
  "dedup xs = rev (remdups (rev xs))"

text \<open>The part of the loop body after the pause: append the result, expand the queue when
  crawling (\<^verbatim>\<open>if result.html:\<close> holds for a page text that is neither \<^verbatim>\<open>None\<close> nor
  empty), emit the progress signal.\<close>

definition finish_iteration ::
  "'e orch_env \<Rightarrow> ScraperProject \<Rightarrow> int \<Rightarrow> string \<Rightarrow> ScrapeResult \<Rightarrow> 'e loop_state \<Rightarrow> 'e loop_state" where
  "finish_iteration env project max_pages u result st =
     (let lf = link_follow project;
          st1 = st\<lparr>results := results st @ [result]\<rparr>;
          st2 = (if lf_enabled lf \<and> link_selectors lf \<noteq> []
                 then (case html result of
                         None \<Rightarrow> st1
                       | Some h \<Rightarrow>
                           if h = [] then st1
                           else
                             let all_new_links =
                                   dedup (concat (map (\<lambda>sel. env_extract_links env h u sel
                                                               (same_domain_only lf))
                                                      (link_selectors lf)));
                                 grown = fold (\<lambda>link (seen, q).
                                                 if link \<notin> seen then (insert link seen, q @ [link])
                                                 else (seen, q))
                                              all_new_links (seen_urls st1, url_queue st1)
                             in st1\<lparr>seen_urls := fst grown, url_queue := snd grown\<rparr>)
                 else st1);
          total = (if lf_enabled lf then max_pages else int (length (target_urls project)))
      in st2\<lparr>events := events st2 @ [Emit (SigProgress (pages_scraped st2) total result)]\<rparr>)"

text \<open>One pass through the body of \<^verbatim>\<open>while url_queue and pages_scraped < max_pages\<close>.\<close>

datatype 'e step =
    Continue "'e loop_state"
  | Break "'e loop_state"
  | Raise py_exn "'e loop_state"
  | Block "'e loop_state"

definition loop_body :: "'e orch_env \<Rightarrow> ScraperProject \<Rightarrow> int \<Rightarrow> 'e loop_state \<Rightarrow> 'e step" where
  "loop_body env project max_pages st =
     (if stop_requested (ctl st) then Break st
      else case url_queue st of
        [] \<Rightarrow> Raise (Exception ''pop from empty list'') st
      | u # q \<Rightarrow>
          (case env_check_robots env (eng st) u of
             (warning, e1) \<Rightarrow>
               (case env_scrape env e1 u (project_fields project) of
                  (res, e2) \<Rightarrow>
                    (case take_calls (script st) of
                       (calls, s1) \<Rightarrow>
                         let st1 = st\<lparr>url_queue := q, pages_scraped := pages_scraped st + 1,
                                      eng := e2, script := s1, ctl := apply_calls calls (ctl st),
                                      events := events st @ [CallCheckRobots u]
                                        @ (case warning of
                                             Some rw \<Rightarrow> [Emit (SigRobotsWarning rw)]
                                           | None \<Rightarrow> [])
                                        @ [CallScrape u]\<rparr>
                         in case res of
                              Inl exn \<Rightarrow> Raise exn st1
                            | Inr result \<Rightarrow>
                                if \<not> success result \<and> should_pause_on_error result
                                then
                                  (case take_calls (script st1) of
                                     (handler_calls, s2) \<Rightarrow>
                                       let c2 = apply_calls handler_calls ((ctl st1)\<lparr>paused := True\<rparr>);
                                           st2 = st1\<lparr>events := events st1
                                                         @ [Emit (SigPaused (error result) result)]\<rparr>
                                       in case wait_while_paused c2 s2 of
                                            None \<Rightarrow> Block (st2\<lparr>ctl := c2, script := []\<rparr>)
                                          | Some (c3, s3, n) \<Rightarrow>
                                              let st3 = st2\<lparr>ctl := c3, script := s3,
                                                            events := events st2 @ replicate n PollSleep\<rparr>
                                              in if stop_requested c3 then Break st3
                                                 else Continue (finish_iteration env project max_pages u result st3))
                                else Continue (finish_iteration env project max_pages u result st1)))))"

datatype 'e run_result =
    Finished "'e loop_state"
  | Raised py_exn "'e loop_state"
  | Blocked "'e loop_state"

function run_loop :: "'e orch_env \<Rightarrow> ScraperProject \<Rightarrow> int \<Rightarrow> 'e loop_state \<Rightarrow> 'e run_result" where
  "run_loop env project max_pages st =
     (if url_queue st \<noteq> [] \<and> pages_scraped st < max_pages
      then (case loop_body env project max_pages st of
              Continue st1 \<Rightarrow> run_loop env project max_pages st1
            | Break st1 \<Rightarrow> Finished st1
            | Raise exn st1 \<Rightarrow> Raised exn st1
            | Block st1 \<Rightarrow> Blocked st1)
      else Finished st)"
  by pat_completeness auto
termination
  by (relation "measure (\<lambda>(env, project, max_pages, st). nat (max_pages - pages_scraped st))")
     (auto simp add: loop_body_def finish_iteration_def Let_def
        split: if_splits list.splits prod.splits sum.splits option.splits)

declare run_loop.simps [simp del]

text \<open>
  \<^verbatim>\<open>run\<close>, from the flags \<open>c\<close> and the engine \<open>e\<close> it finds. The two precondition checks
  return an empty list after an \<^verbatim>\<open>error\<close> signal. After the loop, \<^verbatim>\<open>_running\<close> is reset
  and \<^verbatim>\<open>completed\<close> is emitted; an exception of the engine leaves \<^verbatim>\<open>run\<close> before that.
\<close>

definition max_pages_of :: "ScraperProject \<Rightarrow> int" where
  "max_pages_of project =
     (if lf_enabled (link_follow project) then max_depth (link_follow project)
      else int (length (target_urls project)))"

definition initial_state :: "ScraperProject \<Rightarrow> RunControl \<Rightarrow> 'e \<Rightarrow> control list list \<Rightarrow> 'e loop_state" where
  "initial_state project c e s =
     \<lparr>url_queue = target_urls project, seen_urls = set (target_urls project), pages_scraped = 0, results = [],
      ctl = c\<lparr>running := True, stop_requested := False\<rparr>, eng = e, script = s, events = []\<rparr>"

definition run ::
  "'e orch_env \<Rightarrow> ScraperProject \<Rightarrow> RunControl \<Rightarrow> 'e \<Rightarrow> control list list \<Rightarrow> 'e run_result" where
  "run env project c e s =
     (if target_urls project = []
      then Finished ((initial_state project c e s)
             \<lparr>ctl := c, events := [Emit (SigError ''No URLs to scrape'')]\<rparr>)
      else if project_fields project = []
      then Finished ((initial_state project c e s)
             \<lparr>ctl := c, events := [Emit (SigError ''No fields defined'')]\<rparr>)
      else case run_loop env project (max_pages_of project) (initial_state project c e s) of
             Finished st \<Rightarrow>
               Finished (st\<lparr>ctl := (ctl st)\<lparr>running := False\<rparr>,
                           events := events st @ [Emit (SigCompleted (results st))]\<rparr>)
           | Raised exn st \<Rightarrow> Raised exn st
           | Blocked st \<Rightarrow> Blocked st)"

subsection \<open>States of a run, and example inputs\<close>

fun state_of :: "'e step \<Rightarrow> 'e loop_state" where
  "state_of (Continue st) = st"
| "state_of (Break st) = st"
| "state_of (Raise exn st) = st"
| "state_of (Block st) = st"

fun final_state :: "'e run_result \<Rightarrow> 'e loop_state" where
  "final_state (Finished st) = st"
| "final_state (Raised exn st) = st"
| "final_state (Blocked st) = st"

fun is_scrape_call :: "orch_event \<Rightarrow> bool" where
  "is_scrape_call (CallScrape u) = True"
| "is_scrape_call ev = False"

text \<open>The states the loop of \<^verbatim>\<open>run\<close> passes through from \<open>st0\<close>: \<open>st0\<close> itself and,
  from a state in which the loop condition holds, the state after one pass through the
  body (also when that pass ends the loop).\<close>

inductive reach :: "'e orch_env \<Rightarrow> ScraperProject \<Rightarrow> int \<Rightarrow> 'e loop_state \<Rightarrow> 'e loop_state \<Rightarrow> bool"
  for env :: "'e orch_env" and project :: ScraperProject and max_pages :: int and st0 :: "'e loop_state"
  where
    start: "reach env project max_pages st0 st0"
  | pass: "reach env project max_pages st0 st \<Longrightarrow>
           url_queue st \<noteq> [] \<and> pages_scraped st < max_pages \<Longrightarrow>
           reach env project max_pages st0 (state_of (loop_body env project max_pages st))"

text \<open>An engine that answers HTTP 404 for the URL \<open>a\<close> and extracts nothing elsewhere; a
  project of two URLs without crawling; the same project as a crawl of at most
  \<open>n\<close> pages.\<close>

definition not_found :: "string \<Rightarrow> ScrapeResult" where
  "not_found u = \<lparr>url = u, success = False, data = [], error = Some ''HTTP 404: Not Found'',
                  status_code = None, elapsed_ms = 0, html = None\<rparr>"

definition fetched :: "string \<Rightarrow> ScrapeResult" where
  "fetched u = \<lparr>url = u, success = True, data = [(''t'', None)], error = None,
                status_code = Some 200, elapsed_ms = 0, html = Some ''<p>''\<rparr>"

definition ex_env :: "unit orch_env" where
  "ex_env = \<lparr>env_check_robots = (\<lambda>e u. (None, e)),
             env_scrape = (\<lambda>e u fs. (Inr (if u = ''a'' then not_found u else fetched u), e)),
             env_extract_links = (\<lambda>h b sel same. [])\<rparr>"

definition ex_project :: ScraperProject where
  "ex_project = \<lparr>target_urls = [''a'', ''b''], project_fields = [ex_field ''t'' ''h1''],
                 link_follow = \<lparr>lf_enabled = False, link_selectors = [], max_depth = 1,
                                same_domain_only = True\<rparr>\<rparr>"

definition ex_crawl :: "int \<Rightarrow> ScraperProject" where
  "ex_crawl n = ex_project\<lparr>link_follow := \<lparr>lf_enabled = True, link_selectors = [''a''],
                                           max_depth = n, same_domain_only = True\<rparr>\<rparr>"

definition idle :: RunControl where
  "idle = \<lparr>running = False, paused = False, stop_requested = False\<rparr>"

text \<open>The invariant of the loop: the page counter counts the calls of \<^verbatim>\<open>scrape\<close> and
  stays within the budget.\<close>

definition page_inv :: "int \<Rightarrow> 'e loop_state \<Rightarrow> bool" where
  "page_inv mp st \<longleftrightarrow>
     0 \<le> pages_scraped st \<and> pages_scraped st \<le> max 0 mp
     \<and> int (length (filter is_scrape_call (events st))) = pages_scraped st"

section \<open>Proxy pool: results\<close>





lemma healthy_proxies_current_index [simp]:
  "healthy_proxies (p\<lparr>current_index := i\<rparr>) = healthy_proxies p"
  by (simp add: healthy_proxies_def)




text \<open>C10: an address that is not a key of the pool leaves the whole pool as it is, under
  \<^verbatim>\<open>mark_success\<close> and under \<^verbatim>\<open>mark_failure\<close> alike.\<close>

theorem mark_absent_noop:
  assumes "a \<notin> fst ` set (proxies p)"
  shows "mark_success p a = p \<and> mark_failure p a err = p"
  using assms by (simp add: mark_success_def mark_failure_def)

theorem mark_absent_noop_witness:
  "''p3'' \<notin> fst ` set (proxies mixed_pool)
   \<and> mark_success mixed_pool ''p3'' = mixed_pool
   \<and> mark_failure mixed_pool ''p3'' (Some ''refused'') = mixed_pool"
proof -
  have h: "''p3'' \<notin> fst ` set (proxies mixed_pool)"
    by (simp add: mixed_pool_def)
  from h mark_absent_noop [OF h, of "Some ''refused''"] show ?thesis by blast
qed

section \<open>Engines: the retry loops\<close>

lemma attempts_from_0: "attempts_from u a 0 = [Get u]"
  by (simp add: attempts_from_def)

lemma attempts_from_Suc:
  "attempts_from u a (Suc m) = [Get u, Sleep (2 ^ a)] @ attempts_from u (Suc a) m"
  by (simp add: attempts_from_def upt_conv_Cons del: upt_Suc)

lemma exhausted_from_Suc:
  "exhausted_from u rc a (Suc k) =
     (Get u # (if int a < rc then [Sleep (2 ^ a)] else [])) @ exhausted_from u rc (Suc a) k"
  by (simp add: exhausted_from_def upt_conv_Cons del: upt_Suc)

lemma exhausted_from_all: "exhausted_from u (int n) 0 (Suc n) = attempts_from u 0 n"
proof -
  have "concat (map (\<lambda>i. Get u # (if i < n then [Sleep (2 ^ i)] else [])) [0..<n])
      = concat (map (\<lambda>i. [Get u, Sleep (2 ^ i)]) [0..<n])"
    by (rule arg_cong [where f = concat], rule map_cong) simp_all
  then show ?thesis
    by (simp add: exhausted_from_def attempts_from_def)
qed

lemma last_content_Suc:
  "last_content ph (map f [a..<a + Suc k]) =
     last_content (case f a of Some h \<Rightarrow> Some h | None \<Rightarrow> ph) (map f [Suc a..<Suc a + k])"
  by (simp add: last_content_def upt_conv_Cons del: upt_Suc)

subsection \<open>StaticEngine\<close>

lemma static_attempt_page:
  assumes "fetch_page w u a = Page h sc ex"
  shows "\<exists>r e1. static_attempt w e u fs a = (Returned r, e1) \<and> success r \<and> url r = u
            \<and> data r = extract_fields ex fs \<and> html r = Some h \<and> status_code r = Some sc"
  using assms by (simp add: static_attempt_def Let_def split: prod.splits)

lemma static_attempt_fail:
  assumes "\<not> is_page (fetch_page w u a)"
  shows "\<exists>e1. static_attempt w e u fs a =
           (Failed (error_text (fetch_page w u a)) (content_of (fetch_page w u a)), e1)
         \<and> retry_count e1 = retry_count e \<and> save_html_on_error e1 = save_html_on_error e"
  using assms
  by (cases "fetch_page w u a")
     (simp_all add: static_attempt_def is_page_def note_failure_def Let_def split: prod.splits)

lemma static_retry_loop_success:
  assumes "\<forall>j<m. \<not> is_page (fetch_page w u (a + j))"
    and "fetch_page w u (a + m) = Page h sc ex"
    and "m < k" and "int (a + m) \<le> retry_count e"
  shows "\<exists>r e'. static_retry_loop w u fs k a e le ph tr = (r, e', tr @ attempts_from u a m)
           \<and> success r \<and> url r = u \<and> data r = extract_fields ex fs"
  using assms
proof (induction m arbitrary: k a e le ph tr)
  case 0
  then obtain k' where k: "k = Suc k'" by (cases k) auto
  from 0 have "fetch_page w u a = Page h sc ex" by simp
  from static_attempt_page [OF this, of e fs]
  obtain r e1 where "static_attempt w e u fs a = (Returned r, e1)" "success r" "url r = u"
    "data r = extract_fields ex fs" by blast
  then show ?case by (simp add: k attempts_from_0)
next
  case (Suc m)
  then obtain k' where k: "k = Suc k'" by (cases k) auto
  from Suc.prems(1) have "\<not> is_page (fetch_page w u a)" by force
  from static_attempt_fail [OF this, of e fs]
  obtain e1 where e1: "static_attempt w e u fs a =
       (Failed (error_text (fetch_page w u a)) (content_of (fetch_page w u a)), e1)"
    "retry_count e1 = retry_count e" by blast
  from Suc.prems(1) have a: "\<forall>j<m. \<not> is_page (fetch_page w u (Suc a + j))" by force
  from Suc.prems(2) have b: "fetch_page w u (Suc a + m) = Page h sc ex" by simp
  from Suc.prems(3) k have c: "m < k'" by simp
  from Suc.prems(4) e1 have d: "int (Suc a + m) \<le> retry_count e1" by simp
  from Suc.prems(4) e1 have lt: "int a < retry_count e1" by simp
  from Suc.IH [OF a b c d]
  obtain r e' where
    "static_retry_loop w u fs k' (Suc a) e1 (Some (error_text (fetch_page w u a)))
        (case content_of (fetch_page w u a) of Some h \<Rightarrow> Some h | None \<Rightarrow> ph)
        (tr @ [Get u] @ [Sleep (2 ^ a)])
     = (r, e', (tr @ [Get u] @ [Sleep (2 ^ a)]) @ attempts_from u (Suc a) m)"
    "success r" "url r = u" "data r = extract_fields ex fs"
    by blast
  with e1 lt show ?case by (simp add: k attempts_from_Suc)
qed

lemma static_retry_loop_exhausted:
  assumes "\<forall>j<k. \<not> is_page (fetch_page w u (a + j))"
  shows "\<exists>e'. static_retry_loop w u fs k a e le ph tr =
           (\<lparr>url = u, success = False, data = [],
             error = (if k = 0 then le else Some (error_text (fetch_page w u (a + k - 1)))),
             status_code = None, elapsed_ms = elapsed w,
             html = last_content ph (map (\<lambda>i. content_of (fetch_page w u i)) [a..<a + k])\<rparr>,
            e', tr @ exhausted_from u (retry_count e) a k)"
  using assms
proof (induction k arbitrary: a e le ph tr)
  case 0
  show ?case by (simp add: last_content_def exhausted_from_def)
next
  case (Suc k)
  from Suc.prems have "\<not> is_page (fetch_page w u a)" by force
  from static_attempt_fail [OF this, of e fs]
  obtain e1 where e1: "static_attempt w e u fs a =
       (Failed (error_text (fetch_page w u a)) (content_of (fetch_page w u a)), e1)"
    "retry_count e1 = retry_count e" by blast
  from Suc.prems have a: "\<forall>j<k. \<not> is_page (fetch_page w u (Suc a + j))" by force
  define ph1 where "ph1 = (case content_of (fetch_page w u a) of Some h \<Rightarrow> Some h | None \<Rightarrow> ph)"
  define tr1 where "tr1 = tr @ [Get u] @ (if int a < retry_count e1 then [Sleep (2 ^ a)] else [])"
  from Suc.IH [OF a, of e1 "Some (error_text (fetch_page w u a))" ph1 tr1]
  obtain e' where IH:
    "static_retry_loop w u fs k (Suc a) e1 (Some (error_text (fetch_page w u a))) ph1 tr1 =
       (\<lparr>url = u, success = False, data = [],
         error = (if k = 0 then Some (error_text (fetch_page w u a))
                  else Some (error_text (fetch_page w u (Suc a + k - 1)))),
         status_code = None, elapsed_ms = elapsed w,
         html = last_content ph1 (map (\<lambda>i. content_of (fetch_page w u i)) [Suc a..<Suc a + k])\<rparr>,
        e', tr1 @ exhausted_from u (retry_count e1) (Suc a) k)"
    by blast
  have err: "(if k = 0 then Some (error_text (fetch_page w u a))
              else Some (error_text (fetch_page w u (Suc a + k - 1))))
           = Some (error_text (fetch_page w u (a + Suc k - 1)))"
    by (cases k) simp_all
  have "static_retry_loop w u fs (Suc k) a e le ph tr =
          static_retry_loop w u fs k (Suc a) e1 (Some (error_text (fetch_page w u a))) ph1 tr1"
    using e1 by (simp add: ph1_def tr1_def)
  also note IH
  finally show ?case
    using e1(2) err
    by (simp only: last_content_Suc [of ph "\<lambda>i. content_of (fetch_page w u i)" a k, folded ph1_def]
        exhausted_from_Suc tr1_def) simp
qed


subsection \<open>PlaywrightEngine\<close>

lemma js_attempt_page:
  assumes "goto_page w u a = JsPage h sc ex"
  shows "\<exists>r e1. js_attempt w e u fs a = (Returned r, e1) \<and> success r \<and> url r = u
            \<and> data r = extract_fields ex fs \<and> html r = None \<and> status_code r = sc"
  using assms by (simp add: js_attempt_def Let_def)

lemma js_attempt_fail:
  assumes "\<not> is_js_page (goto_page w u a)"
  shows "\<exists>e1. js_attempt w e u fs a =
           (Failed (js_error_text (goto_page w u a)) (js_content_of (goto_page w u a)), e1)
         \<and> js_retry_count e1 = js_retry_count e
         \<and> js_save_html_on_error e1 = js_save_html_on_error e"
  using assms
  by (cases "goto_page w u a") (simp_all add: js_attempt_def is_js_page_def)

lemma js_retry_loop_success:
  assumes "\<forall>j<m. \<not> is_js_page (goto_page w u (a + j))"
    and "goto_page w u (a + m) = JsPage h sc ex"
    and "m < k" and "int (a + m) \<le> js_retry_count e"
  shows "\<exists>r e'. js_retry_loop w u fs k a e le ph tr = (r, e', tr @ attempts_from u a m)
           \<and> success r \<and> url r = u \<and> data r = extract_fields ex fs"
  using assms
proof (induction m arbitrary: k a e le ph tr)
  case 0
  then obtain k' where k: "k = Suc k'" by (cases k) auto
  from 0 have "goto_page w u a = JsPage h sc ex" by simp
  from js_attempt_page [OF this, of e fs]
  obtain r e1 where "js_attempt w e u fs a = (Returned r, e1)" "success r" "url r = u"
    "data r = extract_fields ex fs" by blast
  then show ?case by (simp add: k attempts_from_0)
next
  case (Suc m)
  then obtain k' where k: "k = Suc k'" by (cases k) auto
  from Suc.prems(1) have "\<not> is_js_page (goto_page w u a)" by force
  from js_attempt_fail [OF this, of e fs]
  obtain e1 where e1: "js_attempt w e u fs a =
       (Failed (js_error_text (goto_page w u a)) (js_content_of (goto_page w u a)), e1)"
    "js_retry_count e1 = js_retry_count e" by blast
  from Suc.prems(1) have a: "\<forall>j<m. \<not> is_js_page (goto_page w u (Suc a + j))" by force
  from Suc.prems(2) have b: "goto_page w u (Suc a + m) = JsPage h sc ex" by simp
  from Suc.prems(3) k have c: "m < k'" by simp
  from Suc.prems(4) e1 have d: "int (Suc a + m) \<le> js_retry_count e1" by simp
  from Suc.prems(4) e1 have lt: "int a < js_retry_count e1" by simp
  from Suc.IH [OF a b c d]
  obtain r e' where
    "js_retry_loop w u fs k' (Suc a) e1 (Some (js_error_text (goto_page w u a)))
        (case js_content_of (goto_page w u a) of Some h \<Rightarrow> Some h | None \<Rightarrow> ph)
        (tr @ [Get u] @ [Sleep (2 ^ a)])
     = (r, e', (tr @ [Get u] @ [Sleep (2 ^ a)]) @ attempts_from u (Suc a) m)"
    "success r" "url r = u" "data r = extract_fields ex fs"
    by blast
  with e1 lt show ?case by (simp add: k attempts_from_Suc)
qed

lemma js_retry_loop_exhausted:
  assumes "\<forall>j<k. \<not> is_js_page (goto_page w u (a + j))"
  shows "\<exists>e'. js_retry_loop w u fs k a e le ph tr =
           (\<lparr>url = u, success = False, data = [],
             error = (if k = 0 then le else Some (js_error_text (goto_page w u (a + k - 1)))),
             status_code = None, elapsed_ms = elapsed w,
             html = (if js_save_html_on_error e
                     then last_content ph (map (\<lambda>i. js_content_of (goto_page w u i)) [a..<a + k])
                     else None)\<rparr>,
            e', tr @ exhausted_from u (js_retry_count e) a k)"
  using assms
proof (induction k arbitrary: a e le ph tr)
  case 0
  show ?case by (simp add: last_content_def exhausted_from_def)
next
  case (Suc k)
  from Suc.prems have "\<not> is_js_page (goto_page w u a)" by force
  from js_attempt_fail [OF this, of e fs]
  obtain e1 where e1: "js_attempt w e u fs a =
       (Failed (js_error_text (goto_page w u a)) (js_content_of (goto_page w u a)), e1)"
    "js_retry_count e1 = js_retry_count e" "js_save_html_on_error e1 = js_save_html_on_error e"
    by blast
  from Suc.prems have a: "\<forall>j<k. \<not> is_js_page (goto_page w u (Suc a + j))" by force
  define ph1 where "ph1 = (case js_content_of (goto_page w u a) of Some h \<Rightarrow> Some h | None \<Rightarrow> ph)"
  define tr1 where "tr1 = tr @ [Get u] @ (if int a < js_retry_count e1 then [Sleep (2 ^ a)] else [])"
  from Suc.IH [OF a, of e1 "Some (js_error_text (goto_page w u a))" ph1 tr1]
  obtain e' where IH:
    "js_retry_loop w u fs k (Suc a) e1 (Some (js_error_text (goto_page w u a))) ph1 tr1 =
       (\<lparr>url = u, success = False, data = [],
         error = (if k = 0 then Some (js_error_text (goto_page w u a))
                  else Some (js_error_text (goto_page w u (Suc a + k - 1)))),
         status_code = None, elapsed_ms = elapsed w,
         html = (if js_save_html_on_error e1
                 then last_content ph1 (map (\<lambda>i. js_content_of (goto_page w u i)) [Suc a..<Suc a + k])
                 else None)\<rparr>,
        e', tr1 @ exhausted_from u (js_retry_count e1) (Suc a) k)"
    by blast
  have err: "(if k = 0 then Some (js_error_text (goto_page w u a))
              else Some (js_error_text (goto_page w u (Suc a + k - 1))))
           = Some (js_error_text (goto_page w u (a + Suc k - 1)))"
    by (cases k) simp_all
  have "js_retry_loop w u fs (Suc k) a e le ph tr =
          js_retry_loop w u fs k (Suc a) e1 (Some (js_error_text (goto_page w u a))) ph1 tr1"
    using e1 by (simp add: ph1_def tr1_def)
  also note IH
  finally show ?case
    using e1(2,3) err
    by (simp only: last_content_Suc [of ph "\<lambda>i. js_content_of (goto_page w u i)" a k, folded ph1_def]
        exhausted_from_Suc tr1_def) simp
qed


section \<open>Engines: whole calls of scrape\<close>

lemma check_robots_config:
  "check_robots w e u = (x, e1, tr) \<Longrightarrow>
     retry_count e1 = retry_count e \<and> rate_limit e1 = rate_limit e
     \<and> consecutive_errors e1 = consecutive_errors e \<and> save_html_on_error e1 = save_html_on_error e"
  by (auto simp add: check_robots_def Let_def split: if_splits option.splits)

lemma check_robots_trace:
  "check_robots w e u = (x, e1, tr) \<Longrightarrow>
     tr = [] \<or> tr = [GetRobots (urljoin w (base_url_of w u) ''/robots.txt'')]"
  by (auto simp add: check_robots_def Let_def split: if_splits option.splits)

lemma scrape_success:
  assumes "check_robots w e u = (None, e1, tr1)"
    and "wait_rate_limit (rate_limit e1) (consecutive_errors e1) (random01 w) = Inr tr2"
    and "\<forall>j<m. \<not> is_page (fetch_page w u j)"
    and "fetch_page w u m = Page h sc ex"
    and "int m \<le> retry_count e"
  shows "\<exists>r e'. scrape w e u fs = (Inr r, e', tr1 @ tr2 @ attempts_from u 0 m)
           \<and> success r \<and> url r = u \<and> data r = extract_fields ex fs"
proof -
  from check_robots_config [OF assms(1)] have rc: "retry_count e1 = retry_count e" by simp
  from assms(5) rc have k: "m < nat (retry_count e1 + 1)" by simp
  from assms(5) rc have le: "int (0 + m) \<le> retry_count e1" by simp
  from assms(3) have f: "\<forall>j<m. \<not> is_page (fetch_page w u (0 + j))" by simp
  from assms(4) have p: "fetch_page w u (0 + m) = Page h sc ex" by simp
  from static_retry_loop_success [OF f p k le, of fs None None "tr1 @ tr2"]
  obtain r e' where
    "static_retry_loop w u fs (nat (retry_count e1 + 1)) 0 e1 None None (tr1 @ tr2)
       = (r, e', (tr1 @ tr2) @ attempts_from u 0 m)"
    "success r" "url r = u" "data r = extract_fields ex fs"
    by blast
  with assms(1,2) show ?thesis by (simp add: scrape_def)
qed

lemma scrape_exhausted:
  assumes "check_robots w e u = (None, e1, tr1)"
    and "wait_rate_limit (rate_limit e1) (consecutive_errors e1) (random01 w) = Inr tr2"
    and "0 \<le> retry_count e"
    and "\<forall>j\<le>nat (retry_count e). \<not> is_page (fetch_page w u j)"
  shows "\<exists>e'. scrape w e u fs =
           (Inr \<lparr>url = u, success = False, data = [],
                 error = Some (error_text (fetch_page w u (nat (retry_count e)))),
                 status_code = None, elapsed_ms = elapsed w,
                 html = last_content None
                          (map (\<lambda>i. content_of (fetch_page w u i)) [0..<Suc (nat (retry_count e))])\<rparr>,
            e', tr1 @ tr2 @ attempts_from u 0 (nat (retry_count e)))"
proof -
  define n where "n = nat (retry_count e)"
  from check_robots_config [OF assms(1)] have rc: "retry_count e1 = retry_count e" by simp
  with assms(3) have k: "nat (retry_count e1 + 1) = Suc n" and rcn: "retry_count e1 = int n"
    by (simp_all add: n_def)
  from assms(4) have f: "\<forall>j<Suc n. \<not> is_page (fetch_page w u (0 + j))"
    by (simp add: n_def less_Suc_eq_le)
  from static_retry_loop_exhausted [OF f, of fs e1 None None "tr1 @ tr2"]
  obtain e' where
    "static_retry_loop w u fs (Suc n) 0 e1 None None (tr1 @ tr2) =
       (\<lparr>url = u, success = False, data = [],
         error = (if Suc n = 0 then None else Some (error_text (fetch_page w u (0 + Suc n - 1)))),
         status_code = None, elapsed_ms = elapsed w,
         html = last_content None (map (\<lambda>i. content_of (fetch_page w u i)) [0..<0 + Suc n])\<rparr>,
        e', (tr1 @ tr2) @ exhausted_from u (retry_count e1) 0 (Suc n))"
    by blast
  with assms(1,2) k rcn show ?thesis
    by (simp add: scrape_def exhausted_from_all n_def [symmetric] del: upt_Suc)
qed


lemma init_browser_config:
  "js_retry_count (init_browser e) = js_retry_count e
   \<and> js_rate_limit (init_browser e) = js_rate_limit e
   \<and> js_consecutive_errors (init_browser e) = js_consecutive_errors e
   \<and> js_save_html_on_error (init_browser e) = js_save_html_on_error e"
  by (simp add: init_browser_def split: prod.splits)

lemma js_scrape_success:
  assumes "wait_rate_limit (js_rate_limit e) (js_consecutive_errors e) (random01 w) = Inr tr1"
    and "\<forall>j<m. \<not> is_js_page (goto_page w u j)"
    and "goto_page w u m = JsPage h sc ex"
    and "int m \<le> js_retry_count e"
  shows "\<exists>r e'. js_scrape w e u fs = (Inr r, e', tr1 @ attempts_from u 0 m)
           \<and> success r \<and> url r = u \<and> data r = extract_fields ex fs"
proof -
  define e1 where "e1 = init_browser e"
  note cfg = init_browser_config [of e, folded e1_def]
  from assms(4) cfg have k: "m < nat (js_retry_count e1 + 1)" by simp
  from assms(4) cfg have le: "int (0 + m) \<le> js_retry_count e1" by simp
  from assms(2) have f: "\<forall>j<m. \<not> is_js_page (goto_page w u (0 + j))" by simp
  from assms(3) have p: "goto_page w u (0 + m) = JsPage h sc ex" by simp
  from js_retry_loop_success [OF f p k le, of fs None None tr1]
  obtain r e' where
    "js_retry_loop w u fs (nat (js_retry_count e1 + 1)) 0 e1 None None tr1
       = (r, e', tr1 @ attempts_from u 0 m)"
    "success r" "url r = u" "data r = extract_fields ex fs"
    by blast
  with assms(1) cfg show ?thesis by (simp add: js_scrape_def e1_def [symmetric])
qed

lemma js_scrape_exhausted:
  assumes "wait_rate_limit (js_rate_limit e) (js_consecutive_errors e) (random01 w) = Inr tr1"
    and "0 \<le> js_retry_count e"
    and "\<forall>j\<le>nat (js_retry_count e). \<not> is_js_page (goto_page w u j)"
  shows "\<exists>e'. js_scrape w e u fs =
           (Inr \<lparr>url = u, success = False, data = [],
                 error = Some (js_error_text (goto_page w u (nat (js_retry_count e)))),
                 status_code = None, elapsed_ms = elapsed w,
                 html = (if js_save_html_on_error e
                         then last_content None
                                (map (\<lambda>i. js_content_of (goto_page w u i))
                                     [0..<Suc (nat (js_retry_count e))])
                         else None)\<rparr>,
            e', tr1 @ attempts_from u 0 (nat (js_retry_count e)))"
proof -
  define n where "n = nat (js_retry_count e)"
  define e1 where "e1 = init_browser e"
  note cfg = init_browser_config [of e, folded e1_def]
  from cfg assms(2) have k: "nat (js_retry_count e1 + 1) = Suc n" and rcn: "js_retry_count e1 = int n"
    by (simp_all add: n_def)
  from assms(3) have f: "\<forall>j<Suc n. \<not> is_js_page (goto_page w u (0 + j))"
    by (simp add: n_def less_Suc_eq_le)
  from js_retry_loop_exhausted [OF f, of fs e1 None None tr1]
  obtain e' where
    "js_retry_loop w u fs (Suc n) 0 e1 None None tr1 =
       (\<lparr>url = u, success = False, data = [],
         error = (if Suc n = 0 then None else Some (js_error_text (goto_page w u (0 + Suc n - 1)))),
         status_code = None, elapsed_ms = elapsed w,
         html = (if js_save_html_on_error e1
                 then last_content None (map (\<lambda>i. js_content_of (goto_page w u i)) [0..<0 + Suc n])
                 else None)\<rparr>,
        e', tr1 @ exhausted_from u (js_retry_count e1) 0 (Suc n))"
    by blast
  with assms(1) k rcn cfg show ?thesis
    by (simp add: js_scrape_def exhausted_from_all n_def [symmetric] e1_def [symmetric] del: upt_Suc)
qed






section \<open>Engines: results\<close>

subsection \<open>Example evaluations\<close>

lemma wait_default: "wait_rate_limit default_rate_limit 0 (1 / 2) = Inr [Sleep 2]"
  by (simp add: wait_rate_limit_def rate_limit_delay_def default_rate_limit_def)

lemma ex_static_prelude:
  "check_robots (ex_world None outs js_outs)
     (new_StaticEngine default_rate_limit default_proxy rc sv True True) ''u''
   = (None, new_StaticEngine default_rate_limit default_proxy rc sv True True,
      [GetRobots ''http://h/robots.txt''])"
  "wait_rate_limit (rate_limit (new_StaticEngine default_rate_limit default_proxy rc sv True True))
     (consecutive_errors (new_StaticEngine default_rate_limit default_proxy rc sv True True))
     (random01 (ex_world None outs js_outs)) = Inr [Sleep 2]"
  using wait_default
  by (simp_all add: check_robots_def ex_world_def new_StaticEngine_def base_url_of_def)

lemma ex_js_prelude:
  "wait_rate_limit (js_rate_limit (new_PlaywrightEngine default_rate_limit default_proxy rc sv True True))
     (js_consecutive_errors (new_PlaywrightEngine default_rate_limit default_proxy rc sv True True))
     (random01 (ex_world None outs js_outs)) = Inr [Sleep 2]"
  using wait_default
  by (simp add: ex_world_def new_PlaywrightEngine_def)

lemma attempts_from_2:
  "attempts_from u 0 2 = [Get u, Sleep 1, Get u, Sleep 2, Get u]"
  by (simp add: attempts_from_def eval_nat_numeral)

lemma third_time_outcomes:
  "\<forall>j<2. \<not> is_page (fetch_page (ex_world rb third_time js_third_time) ''u'' j)"
  "fetch_page (ex_world rb third_time js_third_time) ''u'' 2 = Page ''<p>'' 200 (\<lambda>f. Some (selector f))"
  "\<forall>j<2. \<not> is_js_page (goto_page (ex_world rb third_time js_third_time) ''u'' j)"
  "goto_page (ex_world rb third_time js_third_time) ''u'' 2 = JsPage ''<p>'' (Some 200) (\<lambda>f. Some (selector f))"
  by (simp_all add: ex_world_def third_time_def js_third_time_def is_page_def is_js_page_def)

lemma always_broken_outcomes:
  "\<forall>j\<le>n. \<not> is_page (fetch_page (ex_world rb always_broken js_always_broken) ''u'' j)"
  "\<forall>j\<le>n. \<not> is_js_page (goto_page (ex_world rb always_broken js_always_broken) ''u'' j)"
  by (simp_all add: ex_world_def always_broken_def js_always_broken_def is_page_def is_js_page_def)

subsection \<open>C7: retries and backoff\<close>

text \<open>
  C7. In a call of \<^verbatim>\<open>scrape\<close> that reaches the retry loop (for the static engine: the
  robots check gave no warning; for both: the rate-limit wait returned, with effects
  \<open>tr1\<close>, \<open>tr2\<close>), let the first \<open>m\<close> requests fail and request \<open>m \<le> retry_count\<close>
  succeed. Then the result is successful and the call's effects are those before the
  loop followed by \<open>m\<close> requests, request \<open>i\<close> followed by a sleep of \<open>2 ^ i\<close> seconds,
  and one last request: nothing after the success. If all \<open>retry_count + 1\<close> requests
  fail, the result is a failure after \<open>retry_count\<close> such sleeps and \<open>retry_count + 1\<close>
  requests.
\<close>

theorem scrape_retry_backoff:
  "(check_robots w e u = (None, e1, tr1)
      \<and> wait_rate_limit (rate_limit e1) (consecutive_errors e1) (random01 w) = Inr tr2
      \<and> (\<forall>j<m. \<not> is_page (fetch_page w u j)) \<and> is_page (fetch_page w u m)
      \<and> int m \<le> retry_count e
    \<longrightarrow> (\<exists>r e'. scrape w e u fs = (Inr r, e', tr1 @ tr2 @ attempts_from u 0 m) \<and> success r))
   \<and> (check_robots w e u = (None, e1, tr1)
      \<and> wait_rate_limit (rate_limit e1) (consecutive_errors e1) (random01 w) = Inr tr2
      \<and> 0 \<le> retry_count e \<and> (\<forall>j\<le>nat (retry_count e). \<not> is_page (fetch_page w u j))
    \<longrightarrow> (\<exists>r e'. scrape w e u fs = (Inr r, e', tr1 @ tr2 @ attempts_from u 0 (nat (retry_count e)))
                \<and> \<not> success r))
   \<and> (wait_rate_limit (js_rate_limit p) (js_consecutive_errors p) (random01 w) = Inr tr3
      \<and> (\<forall>j<m. \<not> is_js_page (goto_page w u j)) \<and> is_js_page (goto_page w u m)
      \<and> int m \<le> js_retry_count p
    \<longrightarrow> (\<exists>r p'. js_scrape w p u fs = (Inr r, p', tr3 @ attempts_from u 0 m) \<and> success r))
   \<and> (wait_rate_limit (js_rate_limit p) (js_consecutive_errors p) (random01 w) = Inr tr3
      \<and> 0 \<le> js_retry_count p \<and> (\<forall>j\<le>nat (js_retry_count p). \<not> is_js_page (goto_page w u j))
    \<longrightarrow> (\<exists>r p'. js_scrape w p u fs = (Inr r, p', tr3 @ attempts_from u 0 (nat (js_retry_count p)))
                \<and> \<not> success r))"
proof (intro conjI impI)
  assume a: "check_robots w e u = (None, e1, tr1)
      \<and> wait_rate_limit (rate_limit e1) (consecutive_errors e1) (random01 w) = Inr tr2
      \<and> (\<forall>j<m. \<not> is_page (fetch_page w u j)) \<and> is_page (fetch_page w u m)
      \<and> int m \<le> retry_count e"
  then obtain h sc ex where "fetch_page w u m = Page h sc ex"
    by (auto simp add: is_page_def split: page_outcome.splits)
  with a scrape_success [of w e u e1 tr1 tr2 m h sc ex fs]
  show "\<exists>r e'. scrape w e u fs = (Inr r, e', tr1 @ tr2 @ attempts_from u 0 m) \<and> success r"
    by blast
next
  assume "check_robots w e u = (None, e1, tr1)
      \<and> wait_rate_limit (rate_limit e1) (consecutive_errors e1) (random01 w) = Inr tr2
      \<and> 0 \<le> retry_count e \<and> (\<forall>j\<le>nat (retry_count e). \<not> is_page (fetch_page w u j))"
  with scrape_exhausted [of w e u e1 tr1 tr2 fs]
  obtain e' where "scrape w e u fs =
           (Inr \<lparr>url = u, success = False, data = [],
                 error = Some (error_text (fetch_page w u (nat (retry_count e)))),
                 status_code = None, elapsed_ms = elapsed w,
                 html = last_content None
                          (map (\<lambda>i. content_of (fetch_page w u i)) [0..<Suc (nat (retry_count e))])\<rparr>,
            e', tr1 @ tr2 @ attempts_from u 0 (nat (retry_count e)))"
    by blast
  then show "\<exists>r e'. scrape w e u fs = (Inr r, e', tr1 @ tr2 @ attempts_from u 0 (nat (retry_count e)))
                \<and> \<not> success r"
    by simp
next
  assume a: "wait_rate_limit (js_rate_limit p) (js_consecutive_errors p) (random01 w) = Inr tr3
      \<and> (\<forall>j<m. \<not> is_js_page (goto_page w u j)) \<and> is_js_page (goto_page w u m)
      \<and> int m \<le> js_retry_count p"
  then obtain h sc ex where "goto_page w u m = JsPage h sc ex"
    by (auto simp add: is_js_page_def split: js_outcome.splits)
  with a js_scrape_success [of p w tr3 m u h sc ex fs]
  show "\<exists>r p'. js_scrape w p u fs = (Inr r, p', tr3 @ attempts_from u 0 m) \<and> success r"
    by blast
next
  assume "wait_rate_limit (js_rate_limit p) (js_consecutive_errors p) (random01 w) = Inr tr3
      \<and> 0 \<le> js_retry_count p \<and> (\<forall>j\<le>nat (js_retry_count p). \<not> is_js_page (goto_page w u j))"
  with js_scrape_exhausted [of p w tr3 u fs]
  obtain p' where "js_scrape w p u fs =
           (Inr \<lparr>url = u, success = False, data = [],
                 error = Some (js_error_text (goto_page w u (nat (js_retry_count p)))),
                 status_code = None, elapsed_ms = elapsed w,
                 html = (if js_save_html_on_error p
                         then last_content None
                                (map (\<lambda>i. js_content_of (goto_page w u i))
                                     [0..<Suc (nat (js_retry_count p))])
                         else None)\<rparr>,
            p', tr3 @ attempts_from u 0 (nat (js_retry_count p)))"
    by blast
  then show "\<exists>r p'. js_scrape w p u fs = (Inr r, p', tr3 @ attempts_from u 0 (nat (js_retry_count p)))
                \<and> \<not> success r"
    by simp
qed

text \<open>The scenario of the specification: \<^verbatim>\<open>retry_count = 2\<close>, two failures, then a page.
  Exactly two backoff sleeps, of 1 s and 2 s, lie between the three requests; with a
  page that never parses, the same three requests and two sleeps end in a failure.\<close>

theorem scrape_retry_backoff_witness:
  "(\<exists>r e'. scrape (ex_world None third_time js_third_time)
             (new_StaticEngine default_rate_limit default_proxy 2 True True True) ''u'' [ex_field ''a'' ''s'']
           = (Inr r, e', [GetRobots ''http://h/robots.txt'', Sleep 2,
                          Get ''u'', Sleep 1, Get ''u'', Sleep 2, Get ''u'']) \<and> success r)
   \<and> (\<exists>r e'. scrape (ex_world None always_broken js_always_broken)
             (new_StaticEngine default_rate_limit default_proxy 2 True True True) ''u'' [ex_field ''a'' ''s'']
           = (Inr r, e', [GetRobots ''http://h/robots.txt'', Sleep 2,
                          Get ''u'', Sleep 1, Get ''u'', Sleep 2, Get ''u'']) \<and> \<not> success r)
   \<and> (\<exists>r p'. js_scrape (ex_world None third_time js_third_time)
             (new_PlaywrightEngine default_rate_limit default_proxy 2 True True True) ''u'' [ex_field ''a'' ''s'']
           = (Inr r, p', [Sleep 2, Get ''u'', Sleep 1, Get ''u'', Sleep 2, Get ''u'']) \<and> success r)
   \<and> (\<exists>r p'. js_scrape (ex_world None always_broken js_always_broken)
             (new_PlaywrightEngine default_rate_limit default_proxy 2 True True True) ''u'' [ex_field ''a'' ''s'']
           = (Inr r, p', [Sleep 2, Get ''u'', Sleep 1, Get ''u'', Sleep 2, Get ''u'']) \<and> \<not> success r)"
proof -
  let ?e = "new_StaticEngine default_rate_limit default_proxy 2 True True True"
  let ?p = "new_PlaywrightEngine default_rate_limit default_proxy 2 True True True"
  let ?w = "ex_world None third_time js_third_time"
  let ?v = "ex_world None always_broken js_always_broken"
  let ?fs = "[ex_field ''a'' ''s'']"
  have rc: "retry_count ?e = 2" "js_retry_count ?p = 2"
    by (simp_all add: new_StaticEngine_def new_PlaywrightEngine_def)
  have pg: "is_page (fetch_page ?w ''u'' 2)" "is_js_page (goto_page ?w ''u'' 2)"
    by (simp_all add: third_time_outcomes is_page_def is_js_page_def)
  note t1 = scrape_retry_backoff [where w = ?w and e = ?e and u = "''u''" and ?e1.0 = ?e
      and ?tr1.0 = "[GetRobots ''http://h/robots.txt'']" and ?tr2.0 = "[Sleep 2]" and m = 2
      and p = ?p and ?tr3.0 = "[Sleep 2]" and fs = ?fs]
  note t2 = scrape_retry_backoff [where w = ?v and e = ?e and u = "''u''" and ?e1.0 = ?e
      and ?tr1.0 = "[GetRobots ''http://h/robots.txt'']" and ?tr2.0 = "[Sleep 2]" and m = 2
      and p = ?p and ?tr3.0 = "[Sleep 2]" and fs = ?fs]
  from t1 have a: "\<exists>r e'. scrape ?w ?e ''u'' ?fs
      = (Inr r, e', [GetRobots ''http://h/robots.txt''] @ [Sleep 2] @ attempts_from ''u'' 0 2) \<and> success r"
    using ex_static_prelude third_time_outcomes pg rc by simp
  from t1 have c: "\<exists>r p'. js_scrape ?w ?p ''u'' ?fs
      = (Inr r, p', [Sleep 2] @ attempts_from ''u'' 0 2) \<and> success r"
    using ex_js_prelude third_time_outcomes pg rc by simp
  from t2 have b: "\<exists>r e'. scrape ?v ?e ''u'' ?fs
      = (Inr r, e', [GetRobots ''http://h/robots.txt''] @ [Sleep 2] @ attempts_from ''u'' 0 (nat 2)) \<and> \<not> success r"
    using ex_static_prelude always_broken_outcomes rc by simp
  from t2 have d: "\<exists>r p'. js_scrape ?v ?p ''u'' ?fs
      = (Inr r, p', [Sleep 2] @ attempts_from ''u'' 0 (nat 2)) \<and> \<not> success r"
    using ex_js_prelude always_broken_outcomes rc by simp
  from a b c d show ?thesis
    by (simp add: attempts_from_2)
qed

subsection \<open>C5: the result after the last retry\<close>







subsection \<open>C3: entries of the extracted data\<close>




subsection \<open>C4: robots.txt\<close>









subsection \<open>C6: the rate-limit delay\<close>

text \<open>Below \<open>2 ^ 1024\<close> the delay is what C6 says: \<open>min (max_delay * 2 ^ n) 60\<close> in
  adaptive mode after \<open>n > 0\<close> consecutive errors, and otherwise a value between
  \<^verbatim>\<open>min_delay\<close> and \<^verbatim>\<open>max_delay\<close>, for a draw \<open>rnd\<close> in \<open>[0, 1]\<close>.\<close>

lemma rate_limit_delay_adaptive:
  "adaptive rl \<Longrightarrow> 0 < n \<Longrightarrow> n < 1024 \<Longrightarrow>
     rate_limit_delay rl n rnd = Inr (min (max_delay rl * 2 ^ n) 60)"
  by (simp add: rate_limit_delay_def)

lemma rate_limit_delay_uniform:
  assumes "\<not> adaptive rl \<or> n = 0" and "min_delay rl \<le> max_delay rl" and "0 \<le> rnd" and "rnd \<le> 1"
  shows "\<exists>d. rate_limit_delay rl n rnd = Inr d \<and> min_delay rl \<le> d \<and> d \<le> max_delay rl"
proof -
  let ?d = "min_delay rl + (max_delay rl - min_delay rl) * rnd"
  from assms(1) have "rate_limit_delay rl n rnd = Inr ?d"
    by (auto simp add: rate_limit_delay_def)
  moreover from assms(2,3) have "min_delay rl \<le> ?d" by simp
  moreover from assms(2,4) have "(max_delay rl - min_delay rl) * rnd \<le> (max_delay rl - min_delay rl) * 1"
    by (intro mult_left_mono) simp_all
  then have "?d \<le> max_delay rl" by simp
  ultimately show ?thesis by blast
qed

text \<open>A call of \<^verbatim>\<open>scrape\<close> all of whose attempts fail adds \<^verbatim>\<open>retry_count + 1\<close> to
  \<^verbatim>\<open>_consecutive_errors\<close>, and nothing but a successful attempt resets the counter: with
  the default \<^verbatim>\<open>retry_count\<close> of 3, 256 such calls in a row take a new engine to 1024.\<close>

lemma static_attempt_fail_state:
  assumes "\<not> is_page (fetch_page w u a)"
  shows "consecutive_errors (snd (static_attempt w e u fs a)) = Suc (consecutive_errors e)
         \<and> retry_count (snd (static_attempt w e u fs a)) = retry_count e
         \<and> rate_limit (snd (static_attempt w e u fs a)) = rate_limit e
         \<and> respect_robots (snd (static_attempt w e u fs a)) = respect_robots e"
  using assms
  by (cases "fetch_page w u a")
     (simp_all add: static_attempt_def is_page_def note_failure_def Let_def split: prod.splits)

lemma static_retry_loop_exhausted_state:
  assumes "\<forall>j<k. \<not> is_page (fetch_page w u (a + j))"
  shows "consecutive_errors (fst (snd (static_retry_loop w u fs k a e le ph tr))) = consecutive_errors e + k
         \<and> retry_count (fst (snd (static_retry_loop w u fs k a e le ph tr))) = retry_count e
         \<and> rate_limit (fst (snd (static_retry_loop w u fs k a e le ph tr))) = rate_limit e
         \<and> respect_robots (fst (snd (static_retry_loop w u fs k a e le ph tr))) = respect_robots e"
  using assms
proof (induction k arbitrary: a e le ph tr)
  case 0
  show ?case by simp
next
  case (Suc k)
  from Suc.prems have f: "\<not> is_page (fetch_page w u a)" by force
  from Suc.prems have r: "\<forall>j<k. \<not> is_page (fetch_page w u (Suc a + j))" by force
  obtain e1 where e1: "static_attempt w e u fs a =
       (Failed (error_text (fetch_page w u a)) (content_of (fetch_page w u a)), e1)"
    using static_attempt_fail [OF f, of e fs] by blast
  with static_attempt_fail_state [OF f, of e fs]
  have s: "consecutive_errors e1 = Suc (consecutive_errors e)" "retry_count e1 = retry_count e"
    "rate_limit e1 = rate_limit e" "respect_robots e1 = respect_robots e"
    by simp_all
  from Suc.IH [OF r, of e1] e1 s show ?case by simp
qed

lemma wait_rate_limit_returns:
  "n < 1024 \<Longrightarrow> \<exists>tr. wait_rate_limit rl n rnd = Inr tr"
  by (simp add: wait_rate_limit_def rate_limit_delay_def)

lemma scrape_exhausted_state:
  assumes "\<not> respect_robots e" and "consecutive_errors e < 1024" and "0 \<le> retry_count e"
    and "\<forall>j\<le>nat (retry_count e). \<not> is_page (fetch_page w u j)"
  shows "consecutive_errors (fst (snd (scrape w e u fs))) = consecutive_errors e + nat (retry_count e) + 1
         \<and> retry_count (fst (snd (scrape w e u fs))) = retry_count e
         \<and> rate_limit (fst (snd (scrape w e u fs))) = rate_limit e
         \<and> respect_robots (fst (snd (scrape w e u fs))) = respect_robots e"
proof -
  from assms(1) have cr: "check_robots w e u = (None, e, [])"
    by (simp add: check_robots_def)
  from wait_rate_limit_returns [OF assms(2)] obtain tr2 where
    wl: "wait_rate_limit (rate_limit e) (consecutive_errors e) (random01 w) = Inr tr2" by blast
  define n where "n = nat (retry_count e)"
  from assms(3) have k: "nat (retry_count e + 1) = Suc n" by (simp add: n_def)
  from assms(4) have f: "\<forall>j<Suc n. \<not> is_page (fetch_page w u (0 + j))"
    by (simp add: less_Suc_eq_le n_def)
  obtain r e2 tr where l: "static_retry_loop w u fs (Suc n) 0 e None None tr2 = (r, e2, tr)"
    by (cases "static_retry_loop w u fs (Suc n) 0 e None None tr2") auto
  from static_retry_loop_exhausted_state [OF f, of fs e None None tr2] l
  have s: "consecutive_errors e2 = consecutive_errors e + Suc n" "retry_count e2 = retry_count e"
    "rate_limit e2 = rate_limit e" "respect_robots e2 = respect_robots e"
    by (simp_all del: static_retry_loop.simps)
  from cr wl k l have "scrape w e u fs = (Inr r, e2, tr)"
    by (simp add: scrape_def del: static_retry_loop.simps)
  with s show ?thesis by (simp add: n_def)
qed

lemma scrape_times_errors:
  assumes "\<not> respect_robots e" and "retry_count e = 3" and "consecutive_errors e = 0"
    and "\<forall>j. \<not> is_page (fetch_page w u j)"
  shows "i \<le> 256 \<Longrightarrow>
     consecutive_errors (scrape_times i w e u fs) = 4 * i
     \<and> retry_count (scrape_times i w e u fs) = 3
     \<and> rate_limit (scrape_times i w e u fs) = rate_limit e
     \<and> \<not> respect_robots (scrape_times i w e u fs)"
proof (induction i)
  case 0
  with assms show ?case by simp
next
  case (Suc i)
  then have IH: "consecutive_errors (scrape_times i w e u fs) = 4 * i"
    "retry_count (scrape_times i w e u fs) = 3"
    "rate_limit (scrape_times i w e u fs) = rate_limit e"
    "\<not> respect_robots (scrape_times i w e u fs)"
    by simp_all
  from Suc.prems IH(1) have lt: "consecutive_errors (scrape_times i w e u fs) < 1024" by simp
  from IH(2) have rc: "0 \<le> retry_count (scrape_times i w e u fs)" by simp
  from assms(4) have f: "\<forall>j\<le>nat (retry_count (scrape_times i w e u fs)). \<not> is_page (fetch_page w u j)"
    by simp
  from scrape_exhausted_state [OF IH(4) lt rc f, of fs] IH show ?case
    by simp
qed

text \<open>
  C6 at 1024 consecutive errors in adaptive mode: \<^verbatim>\<open>2 ** 1024\<close> does not convert to a
  float, so \<^verbatim>\<open>_wait_rate_limit\<close> raises \<^verbatim>\<open>OverflowError\<close> where the claim promises a
  delay of 60 seconds. A new engine with the default rate limit and \<^verbatim>\<open>retry_count\<close> 3 is
  in that state after 256 calls of \<^verbatim>\<open>scrape\<close> for a URL that keeps failing, and its next
  call of \<^verbatim>\<open>scrape\<close> raises.
\<close>

theorem rate_limit_overflow:
  "wait_rate_limit default_rate_limit 1024 rnd = Inl OverflowError
   \<and> consecutive_errors (scrape_times 256 (ex_world None always_broken js_always_broken)
        (new_StaticEngine default_rate_limit default_proxy 3 True False True) ''u'' [ex_field ''a'' ''s'']) = 1024
   \<and> fst (scrape (ex_world None always_broken js_always_broken)
        (scrape_times 256 (ex_world None always_broken js_always_broken)
           (new_StaticEngine default_rate_limit default_proxy 3 True False True) ''u'' [ex_field ''a'' ''s''])
        ''u'' [ex_field ''a'' ''s'']) = Inl OverflowError"
proof -
  let ?w = "ex_world None always_broken js_always_broken"
  let ?g = "new_StaticEngine default_rate_limit default_proxy 3 True False True"
  let ?e = "scrape_times 256 ?w ?g ''u'' [ex_field ''a'' ''s'']"
  have a: "wait_rate_limit default_rate_limit 1024 rnd = Inl OverflowError" for rnd
    by (simp add: wait_rate_limit_def rate_limit_delay_def default_rate_limit_def)
  have h: "\<not> respect_robots ?g" "retry_count ?g = 3" "consecutive_errors ?g = 0"
    "\<forall>j. \<not> is_page (fetch_page ?w ''u'' j)"
    by (simp_all add: new_StaticEngine_def ex_world_def always_broken_def is_page_def)
  have le: "(256::nat) \<le> 256" by simp
  from scrape_times_errors [OF h le, of "[ex_field ''a'' ''s'']"]
  have s: "consecutive_errors ?e = 1024" "rate_limit ?e = rate_limit ?g" "\<not> respect_robots ?e"
    by simp_all
  have rl: "rate_limit ?g = default_rate_limit" by (simp add: new_StaticEngine_def)
  from s(3) have cr: "check_robots ?w ?e ''u'' = (None, ?e, [])"
    by (simp add: check_robots_def)
  from cr s(1,2) rl a [of "random01 ?w"]
  have b: "fst (scrape ?w ?e ''u'' [ex_field ''a'' ''s'']) = Inl OverflowError"
    by (simp add: scrape_def)
  from a s(1) b show ?thesis by (intro conjI)
qed

subsection \<open>C8: scrape\_batch\<close>



section \<open>Orchestrator: results\<close>

lemma finish_iteration_frame:
  "pages_scraped (finish_iteration env project mp u r st) = pages_scraped st
   \<and> filter is_scrape_call (events (finish_iteration env project mp u r st))
       = filter is_scrape_call (events st)
   \<and> results (finish_iteration env project mp u r st) = results st @ [r]
   \<and> ctl (finish_iteration env project mp u r st) = ctl st
   \<and> script (finish_iteration env project mp u r st) = script st"
  by (simp add: finish_iteration_def Let_def split: option.splits)

lemma filter_scrape_replicate [simp]: "filter is_scrape_call (replicate n PollSleep) = []"
  by (induction n) simp_all

lemma loop_body_page_inv:
  assumes "page_inv mp st" and "url_queue st \<noteq> []" and "pages_scraped st < mp"
  shows "page_inv mp (state_of (loop_body env project mp st))"
proof (cases "stop_requested (ctl st)")
  case True
  with assms(1) show ?thesis by (simp add: loop_body_def)
next
  case False
  from assms(2) obtain u q where uq: "url_queue st = u # q" by (cases "url_queue st") auto
  obtain warning e1 where cr: "env_check_robots env (eng st) u = (warning, e1)"
    by (cases "env_check_robots env (eng st) u")
  obtain res e2 where sc: "env_scrape env e1 u (project_fields project) = (res, e2)"
    by (cases "env_scrape env e1 u (project_fields project)")
  obtain calls s1 where tc: "take_calls (script st) = (calls, s1)"
    by (cases "take_calls (script st)")
  obtain hc s2 where tc2: "take_calls s1 = (hc, s2)"
    by (cases "take_calls s1")
  from assms(1,3) have a: "0 \<le> pages_scraped st + 1" "pages_scraped st + 1 \<le> max 0 mp"
    "int (length (filter is_scrape_call (events st))) + 1 = pages_scraped st + 1"
    by (simp_all add: page_inv_def)
  show ?thesis
  proof (cases res)
    case (Inl exn)
    with False uq cr sc tc a show ?thesis
      by (simp add: loop_body_def page_inv_def Let_def split: option.splits)
  next
    case (Inr result)
    show ?thesis
    proof (cases "\<not> success result \<and> should_pause_on_error result")
      case nopause: False
      from Inr False uq cr sc tc a show ?thesis
        by (simp add: loop_body_def page_inv_def Let_def finish_iteration_frame nopause
            split: option.splits)
    next
      case pause: True
      show ?thesis
      proof (cases "wait_while_paused (apply_calls hc ((apply_calls calls (ctl st))\<lparr>paused := True\<rparr>)) s2")
        case None
        with pause Inr False uq cr sc tc tc2 a show ?thesis
          by (simp add: loop_body_def page_inv_def Let_def split: option.splits)
      next
        case (Some t)
        then obtain c3 s3 n where "t = (c3, s3, n)" by (cases t) auto
        with Some pause Inr False uq cr sc tc tc2 a show ?thesis
          by (simp add: loop_body_def page_inv_def Let_def finish_iteration_frame split: option.splits)
      qed
    qed
  qed
qed

lemma reach_page_inv:
  assumes "reach env project mp st0 st" and "page_inv mp st0"
  shows "page_inv mp st"
  using assms
proof (induction rule: reach.induct)
  case start
  then show ?case by simp
next
  case (pass st)
  then show ?case by (auto intro: loop_body_page_inv)
qed

lemma initial_page_inv: "page_inv mp (initial_state project c e s)"
  by (simp add: page_inv_def initial_state_def)

lemma run_loop_reach:
  "reach env project mp st0 st \<Longrightarrow>
     reach env project mp st0 (final_state (run_loop env project mp st))"
proof (induction env project mp st rule: run_loop.induct)
  case (1 env project max_pages st)
  show ?case
  proof (cases "url_queue st \<noteq> [] \<and> pages_scraped st < max_pages")
    case False
    from "1.prems" show ?thesis by (simp add: run_loop.simps [of env project max_pages st] False)
  next
    case True
    from reach.pass [OF "1.prems" True]
    have r: "reach env project max_pages st0 (state_of (loop_body env project max_pages st))" .
    show ?thesis
    proof (cases "loop_body env project max_pages st")
      case (Continue st1)
      with r have "reach env project max_pages st0 st1" by simp
      from "1.IH" [OF True Continue this] True Continue show ?thesis
        by (simp add: run_loop.simps [of env project max_pages st])
    next
      case (Break st1)
      with r True show ?thesis by (simp add: run_loop.simps [of env project max_pages st])
    next
      case (Raise exn st1)
      with r True show ?thesis by (simp add: run_loop.simps [of env project max_pages st])
    next
      case (Block st1)
      with r True show ?thesis by (simp add: run_loop.simps [of env project max_pages st])
    qed
  qed
qed

text \<open>
  C9. In every state the loop of \<^verbatim>\<open>run\<close> passes through, and in the state in which it
  ends, \<^verbatim>\<open>pages_scraped\<close> is the number of calls of the engine's \<^verbatim>\<open>scrape\<close> so far and is
  at most \<^verbatim>\<open>max_pages\<close> (for a budget of at least 0; for a negative one it is 0). With a
  budget of 0 or less, \<^verbatim>\<open>run\<close> ends at once with no results and without calling the
  engine.
\<close>

theorem pages_scraped_bounded:
  "(reach env project (max_pages_of project) (initial_state project c e s) st \<longrightarrow>
      pages_scraped st \<le> max 0 (max_pages_of project)
      \<and> (0 \<le> max_pages_of project \<longrightarrow> pages_scraped st \<le> max_pages_of project)
      \<and> int (length (filter is_scrape_call (events st))) = pages_scraped st)
   \<and> reach env project (max_pages_of project) (initial_state project c e s)
        (final_state (run_loop env project (max_pages_of project) (initial_state project c e s)))
   \<and> (max_pages_of project \<le> 0 \<longrightarrow>
        (\<exists>st. run env project c e s = Finished st \<and> results st = [] \<and> pages_scraped st = 0
              \<and> filter is_scrape_call (events st) = [] \<and> eng st = e))"
proof (intro conjI impI)
  assume r: "reach env project (max_pages_of project) (initial_state project c e s) st"
  from reach_page_inv [OF r initial_page_inv]
  have inv: "page_inv (max_pages_of project) st" .
  then show "pages_scraped st \<le> max 0 (max_pages_of project)"
    and "int (length (filter is_scrape_call (events st))) = pages_scraped st"
    by (simp_all add: page_inv_def)
  assume "0 \<le> max_pages_of project"
  with inv show "pages_scraped st \<le> max_pages_of project"
    by (simp add: page_inv_def)
next
  show "reach env project (max_pages_of project) (initial_state project c e s)
        (final_state (run_loop env project (max_pages_of project) (initial_state project c e s)))"
    by (rule run_loop_reach) (rule reach.start)
next
  assume z: "max_pages_of project \<le> 0"
  have "run_loop env project (max_pages_of project) (initial_state project c e s)
          = Finished (initial_state project c e s)"
    using z by (simp add: run_loop.simps [of env project "max_pages_of project"] initial_state_def)
  then show "\<exists>st. run env project c e s = Finished st \<and> results st = [] \<and> pages_scraped st = 0
              \<and> filter is_scrape_call (events st) = [] \<and> eng st = e"
    by (simp add: run_def initial_state_def)
qed

theorem pages_scraped_bounded_witness:
  "pages_scraped (final_state (run_loop ex_env (ex_crawl 1) (max_pages_of (ex_crawl 1))
       (initial_state (ex_crawl 1) idle () [[], [Resume]]))) = 1
   \<and> pages_scraped (final_state (run_loop ex_env (ex_crawl 1) (max_pages_of (ex_crawl 1))
       (initial_state (ex_crawl 1) idle () [[], [Resume]]))) \<le> 1
   \<and> (\<exists>st. run ex_env (ex_crawl 0) idle () [] = Finished st \<and> results st = []
         \<and> filter is_scrape_call (events st) = [])"
proof -
  let ?st0 = "initial_state (ex_crawl 1) idle () [[], [Resume]]"
  let ?fin = "final_state (run_loop ex_env (ex_crawl 1) (max_pages_of (ex_crawl 1)) ?st0)"
  have budget: "max_pages_of (ex_crawl 1) = 1" "max_pages_of (ex_crawl 0) \<le> 0"
    by (simp_all add: max_pages_of_def ex_crawl_def)
  note t = pages_scraped_bounded [where env = ex_env and project = "ex_crawl 1" and c = idle
      and e = "()" and s = "[[], [Resume]]" and st = ?fin]
  from t have r: "reach ex_env (ex_crawl 1) (max_pages_of (ex_crawl 1)) ?st0 ?fin"
    by (rule conjunct1 [OF conjunct2])
  from t [THEN conjunct1, THEN mp, OF r] budget(1) have le: "pages_scraped ?fin \<le> 1"
    by simp
  have eq: "pages_scraped ?fin = 1"
    by code_simp
  from pages_scraped_bounded [where env = ex_env and project = "ex_crawl 0" and c = idle
      and e = "()" and s = "[]", THEN conjunct2, THEN conjunct2, THEN mp, OF budget(2)]
  have z: "\<exists>st. run ex_env (ex_crawl 0) idle () [] = Finished st \<and> results st = []
         \<and> filter is_scrape_call (events st) = []"
    by blast
  from eq le z show ?thesis by (intro conjI)
qed

subsection \<open>C2: skip\_current\<close>

text \<open>The pause predicate holds for the error text the static engine gives an HTTP status
  from 400 to 499.\<close>

lemma str_int_4xx:
  assumes "400 \<le> code" and "code < 500"
  shows "\<exists>d1 d2. str_int code = [CHR ''4'', d1, d2]"
proof -
  define n where "n = nat code"
  from assms have n: "400 \<le> n" "n < 500" by (simp_all add: n_def)
  then have a: "\<not> n < 10" "\<not> n div 10 < 10" "n div 10 div 10 = 4" by simp_all
  have "str_nat n = str_nat (n div 10 div 10) @ [''0123456789'' ! (n div 10 mod 10)]
      @ [''0123456789'' ! (n mod 10)]"
    using a(1,2) by (simp add: str_nat.simps [of n] str_nat.simps [of "n div 10"])
  also have "str_nat (n div 10 div 10) = [CHR ''4'']"
    by (simp add: a(3) str_nat.simps [of 4])
  finally have "str_nat n = [CHR ''4'', ''0123456789'' ! (n div 10 mod 10), ''0123456789'' ! (n mod 10)]"
    by simp
  with assms show ?thesis by (simp add: str_int_def n_def)
qed

lemma http_4xx_pauses:
  assumes "400 \<le> code" and "code < 500" and "error r = Some (error_text (HTTPStatusError code reason))"
  shows "should_pause_on_error r"
proof -
  from str_int_4xx [OF assms(1,2)] obtain d1 d2 where "str_int code = [CHR ''4'', d1, d2]"
    by blast
  with assms(3) show ?thesis
    by (simp add: should_pause_on_error_def)
qed







end
